theory Spec2Isabelle
  imports Main "HOL-Library.Word"
begin

section \<open>Single-precision numbers\<close>

text \<open>
  Every coordinate, size and colour channel of \<^verbatim>\<open>IDraw2d.h\<close> is a C++ \<^verbatim>\<open>float\<close>. A finite
  \<^verbatim>\<open>float\<close> is an integer multiple of the smallest subnormal \<open>2\<^sup>-\<^sup>1\<^sup>4\<^sup>9\<close>, so \<open>Fin k\<close> stands
  for the number \<open>k \<cdot> 2\<^sup>-\<^sup>1\<^sup>4\<^sup>9\<close>; \<open>PInf\<close>, \<open>NInf\<close> and \<open>NaN\<close> are the two infinities and
  not-a-number. The two zeros of the format, which compare equal, are the one value \<open>Fin 0\<close>,
  and all NaNs are the one value \<open>NaN\<close>.
\<close>

datatype f32 = Fin int | PInf | NInf | NaN

text \<open>The number of low bits that have to go so that a magnitude fits the 24-bit significand.\<close>

function excess_bits :: "int \<Rightarrow> nat" where
  "excess_bits a = (if a < 2 ^ 24 then 0 else Suc (excess_bits (a div 2)))"
  by pat_completeness auto
termination
  by (relation "measure nat") auto

declare excess_bits.simps [simp del]

text \<open>
  Rounding a magnitude: \<open>round_mag a s\<close> is, in units of \<open>2\<^sup>-\<^sup>1\<^sup>4\<^sup>9\<close>, the \<^verbatim>\<open>float\<close> magnitude
  nearest to the exact number \<open>a \<cdot> 2\<^sup>-\<^sup>1\<^sup>4\<^sup>9\<^sup>-\<^sup>s\<close> (\<open>a \<ge> 0\<close>), as the default rounding mode gives
  it: at most 24 significant bits are kept, nothing finer than \<open>2\<^sup>-\<^sup>1\<^sup>4\<^sup>9\<close> is kept, and a tie
  goes to the even significand.
\<close>

definition round_mag :: "int \<Rightarrow> nat \<Rightarrow> int" where
  "round_mag a s =
     (let t = max s (excess_bits a);
          q = a div 2 ^ t;
          r = a mod 2 ^ t;
          q' = (if 2 ^ t < 2 * r \<or> (2 * r = 2 ^ t \<and> odd q) then q + 1 else q)
      in q' * 2 ^ (t - s))"

text \<open>
  \<open>round_f32 n s\<close> is the \<^verbatim>\<open>float\<close> nearest to \<open>n \<cdot> 2\<^sup>-\<^sup>1\<^sup>4\<^sup>9\<^sup>-\<^sup>s\<close>: the rounded magnitude with the
  sign of \<open>n\<close>, and an infinity when the rounded magnitude is \<open>2\<^sup>1\<^sup>2\<^sup>8\<close> or more.
\<close>

definition round_f32 :: "int \<Rightarrow> nat \<Rightarrow> f32" where
  "round_f32 n s =
     (let m = round_mag \<bar>n\<bar> s
      in if 2 ^ 277 \<le> m then (if n < 0 then NInf else PInf)
         else Fin (if n < 0 then - m else m))"

text \<open>The values a \<^verbatim>\<open>float\<close> variable can hold: a \<open>Fin k\<close> that rounding leaves alone.\<close>

fun is_f32 :: "f32 \<Rightarrow> bool" where
  "is_f32 (Fin k) = (round_f32 k 0 = Fin k)"
| "is_f32 _ = True"

fun is_finite :: "f32 \<Rightarrow> bool" where
  "is_finite (Fin k) = True"
| "is_finite _ = False"

text \<open>A \<^verbatim>\<open>float\<close> whose value is a whole number: a multiple of \<open>1.0 = 2\<^sup>1\<^sup>4\<^sup>9 \<cdot> 2\<^sup>-\<^sup>1\<^sup>4\<^sup>9\<close>.\<close>

fun is_integral :: "f32 \<Rightarrow> bool" where
  "is_integral (Fin k) = (k mod 2 ^ 149 = 0)"
| "is_integral _ = False"

fun fneg :: "f32 \<Rightarrow> f32" where
  "fneg (Fin a) = Fin (- a)"
| "fneg PInf = NInf"
| "fneg NInf = PInf"
| "fneg NaN = NaN"

fun fadd :: "f32 \<Rightarrow> f32 \<Rightarrow> f32" where
  "fadd (Fin a) (Fin b) = round_f32 (a + b) 0"
| "fadd NaN _ = NaN"
| "fadd _ NaN = NaN"
| "fadd PInf NInf = NaN"
| "fadd NInf PInf = NaN"
| "fadd PInf _ = PInf"
| "fadd _ PInf = PInf"
| "fadd NInf _ = NInf"
| "fadd _ NInf = NInf"

definition fsub :: "f32 \<Rightarrow> f32 \<Rightarrow> f32" where
  "fsub x y = fadd x (fneg y)"

fun fmul :: "f32 \<Rightarrow> f32 \<Rightarrow> f32" where
  "fmul (Fin a) (Fin b) = round_f32 (a * b) 149"
| "fmul NaN _ = NaN"
| "fmul _ NaN = NaN"
| "fmul (Fin a) PInf = (if a = 0 then NaN else if a < 0 then NInf else PInf)"
| "fmul (Fin a) NInf = (if a = 0 then NaN else if a < 0 then PInf else NInf)"
| "fmul PInf (Fin b) = (if b = 0 then NaN else if b < 0 then NInf else PInf)"
| "fmul NInf (Fin b) = (if b = 0 then NaN else if b < 0 then PInf else NInf)"
| "fmul PInf PInf = PInf"
| "fmul PInf NInf = NInf"
| "fmul NInf PInf = NInf"
| "fmul NInf NInf = PInf"

text \<open>\<^verbatim>\<open>floor\<close> and \<^verbatim>\<open>ceil\<close> of \<^verbatim>\<open><math.h>\<close>: exact, and the identity on infinities and NaN.\<close>

fun floor_f32 :: "f32 \<Rightarrow> f32" where
  "floor_f32 (Fin a) = Fin ((a div 2 ^ 149) * 2 ^ 149)"
| "floor_f32 x = x"

fun ceil_f32 :: "f32 \<Rightarrow> f32" where
  "ceil_f32 (Fin a) = Fin (- ((- a) div 2 ^ 149) * 2 ^ 149)"
| "ceil_f32 x = x"

text \<open>Literals: a whole number \<open>n\<close> (as \<^verbatim>\<open>1.0f\<close>, \<^verbatim>\<open>0\<close>), and \<^verbatim>\<open>0.5f\<close>.\<close>

definition f32_of_int :: "int \<Rightarrow> f32" where
  "f32_of_int n = round_f32 (n * 2 ^ 149) 0"

definition f32_half :: f32 where
  "f32_half = Fin (2 ^ 148)"

text \<open>
  The literals \<^verbatim>\<open>3.4f\<close> and \<^verbatim>\<open>3.6f\<close>: the \<^verbatim>\<open>float\<close>s nearest to 3.4 and 3.6 are
  \<open>14260634 \<cdot> 2\<^sup>-\<^sup>2\<^sup>2\<close> and \<open>15099494 \<cdot> 2\<^sup>-\<^sup>2\<^sup>2\<close> (bit patterns \<^verbatim>\<open>0x4059999A\<close> and \<^verbatim>\<open>0x40666666\<close>).
\<close>

definition f32_3_4 :: f32 where
  "f32_3_4 = Fin (14260634 * 2 ^ 127)"

definition f32_3_6 :: f32 where
  "f32_3_6 = Fin (15099494 * 2 ^ 127)"


section \<open>The value types of AzCore that the header uses\<close>

text \<open>
  \<^verbatim>\<open>AZ::Vector2\<close>, \<^verbatim>\<open>AZ::Vector3\<close> and \<^verbatim>\<open>AZ::Color\<close> are declared in AzCore; the header uses their
  constructors and the accessors \<^verbatim>\<open>GetX\<close>, \<^verbatim>\<open>GetY\<close>, \<^verbatim>\<open>SetX\<close>, \<^verbatim>\<open>SetY\<close>. \<^verbatim>\<open>Vector3\<close> extends
  \<^verbatim>\<open>Vector2\<close> here, so that a function written for every type with these four accessors (the
  template parameter \<^verbatim>\<open>T\<close> of \<^verbatim>\<open>RoundXY\<close>) is a function on \<open>'a Vector2_scheme\<close>.
\<close>

record Vector2 =
  m_x :: f32
  m_y :: f32

record Vector3 = Vector2 +
  m_z :: f32

record Color =
  m_r :: f32
  m_g :: f32
  m_b :: f32
  m_a :: f32

definition GetX :: "'a Vector2_scheme \<Rightarrow> f32" where
  "GetX v = m_x v"

definition GetY :: "'a Vector2_scheme \<Rightarrow> f32" where
  "GetY v = m_y v"

definition SetX :: "f32 \<Rightarrow> 'a Vector2_scheme \<Rightarrow> 'a Vector2_scheme" where
  "SetX x v = v\<lparr>m_x := x\<rparr>"

definition SetY :: "f32 \<Rightarrow> 'a Vector2_scheme \<Rightarrow> 'a Vector2_scheme" where
  "SetY y v = v\<lparr>m_y := y\<rparr>"

definition mk_Vector2 :: "f32 \<Rightarrow> f32 \<Rightarrow> Vector2" where
  "mk_Vector2 x y = \<lparr>m_x = x, m_y = y\<rparr>"

definition mk_Vector3 :: "f32 \<Rightarrow> f32 \<Rightarrow> f32 \<Rightarrow> Vector3" where
  "mk_Vector3 x y z = \<lparr>m_x = x, m_y = y, m_z = z\<rparr>"

definition mk_Color :: "f32 \<Rightarrow> f32 \<Rightarrow> f32 \<Rightarrow> f32 \<Rightarrow> Color" where
  "mk_Color r g b a = \<lparr>m_r = r, m_g = g, m_b = b, m_a = a\<rparr>"

definition CreateZero :: Vector2 where
  "CreateZero = mk_Vector2 (f32_of_int 0) (f32_of_int 0)"


section \<open>The types of \<^verbatim>\<open>IDraw2d\<close>\<close>

datatype HAlign = HAlign_Left | HAlign_Center | HAlign_Right

datatype VAlign = VAlign_Top | VAlign_Center | VAlign_Bottom

datatype Rounding = Rounding_None | Rounding_Nearest | Rounding_Down | Rounding_Up


section \<open>The static helpers \<^verbatim>\<open>Align\<close> and \<^verbatim>\<open>RoundXY\<close>\<close>

definition Align :: "Vector2 \<Rightarrow> Vector2 \<Rightarrow> HAlign \<Rightarrow> VAlign \<Rightarrow> Vector2" where
  "Align position size' horizontalAlignment verticalAlignment =
     (let result = CreateZero;
          result = (case horizontalAlignment of
                      HAlign_Left \<Rightarrow> SetX (GetX position) result
                    | HAlign_Center \<Rightarrow> SetX (fsub (GetX position) (fmul (GetX size') f32_half)) result
                    | HAlign_Right \<Rightarrow> SetX (fsub (GetX position) (GetX size')) result);
          result = (case verticalAlignment of
                      VAlign_Top \<Rightarrow> SetY (GetY position) result
                    | VAlign_Center \<Rightarrow> SetY (fsub (GetY position) (fmul (GetY size') f32_half)) result
                    | VAlign_Bottom \<Rightarrow> SetY (fsub (GetY position) (GetY size')) result)
      in result)"

definition RoundXY :: "'a Vector2_scheme \<Rightarrow> Rounding \<Rightarrow> 'a Vector2_scheme" where
  "RoundXY val roundingType =
     (let result = val
      in case roundingType of
           Rounding_None \<Rightarrow> result
         | Rounding_Nearest \<Rightarrow>
             SetY (floor_f32 (fadd (GetY val) f32_half))
               (SetX (floor_f32 (fadd (GetX val) f32_half)) result)
         | Rounding_Down \<Rightarrow>
             SetY (floor_f32 (GetY val)) (SetX (floor_f32 (GetX val)) result)
         | Rounding_Up \<Rightarrow>
             SetY (ceil_f32 (GetY val)) (SetX (ceil_f32 (GetX val)) result))"

text \<open>
  The formula the specification gives for Nearest, \<open>floor(v + 0.5)\<close>, taken as it is written:
  the whole number below the exact sum, which no rounding has touched. It is what
  \<^verbatim>\<open>RoundXY\<close>, which adds \<^verbatim>\<open>0.5f\<close> in \<^verbatim>\<open>float\<close>, is compared with. An infinity or NaN plus a
  half is itself.
\<close>

fun spec_nearest :: "f32 \<Rightarrow> f32" where
  "spec_nearest (Fin k) = Fin (((k + 2 ^ 148) div 2 ^ 149) * 2 ^ 149)"
| "spec_nearest x = x"


section \<open>Render state and option records\<close>

text \<open>
  Modelled from the spec: \<^verbatim>\<open>AZ::RHI::BlendFactor\<close>, \<^verbatim>\<open>AZ::RHI::TargetBlendState\<close> and
  \<^verbatim>\<open>AZ::RHI::DepthState\<close> are declared in Atom's \<^verbatim>\<open>RenderStates.h\<close>, which is not among the
  sources. The spec gives a render state as
  \<^verbatim>\<open>{ blend: {enabled, srcFactor, dstFactor}, depthTest: {enabled, compareMode} }\<close>; the header
  names the two blend factors \<^verbatim>\<open>AlphaSource\<close> and \<^verbatim>\<open>AlphaSourceInverse\<close>, every other factor is
  an \<open>OtherBlendFactor\<close>.
\<close>

datatype BlendFactor = AlphaSource | AlphaSourceInverse | OtherBlendFactor nat

record TargetBlendState =
  m_enable :: bool
  m_blendSource :: BlendFactor
  m_blendDest :: BlendFactor

record DepthState =
  m_enable :: bool
  m_func :: nat

record RenderState =
  m_blendState :: TargetBlendState
  m_depthState :: DepthState

text \<open>
  The constructor \<^verbatim>\<open>RenderState()\<close> assigns four fields of its two members, after their own
  default constructors (Atom's) have run: \<open>members\<close> is what those left.
\<close>

definition RenderState_ctor :: "RenderState \<Rightarrow> RenderState" where
  "RenderState_ctor members =
     (let this = members;
          this = this\<lparr>m_blendState := (m_blendState this)\<lparr>TargetBlendState.m_enable := True\<rparr>\<rparr>;
          this = this\<lparr>m_blendState := (m_blendState this)\<lparr>m_blendSource := AlphaSource\<rparr>\<rparr>;
          this = this\<lparr>m_blendState := (m_blendState this)\<lparr>m_blendDest := AlphaSourceInverse\<rparr>\<rparr>;
          this = this\<lparr>m_depthState := (m_depthState this)\<lparr>DepthState.m_enable := False\<rparr>\<rparr>
      in this)"

record ImageOptions =
  color :: Vector3
  pixelRounding :: Rounding
  m_clamp :: bool
  m_renderState :: RenderState

text \<open>\<^verbatim>\<open>ImageOptions\<close> has a default member initialiser for each member.\<close>

definition ImageOptions_ctor :: "RenderState \<Rightarrow> ImageOptions" where
  "ImageOptions_ctor members =
     \<lparr>ImageOptions.color = mk_Vector3 (f32_of_int 1) (f32_of_int 1) (f32_of_int 1),
      pixelRounding = Rounding_Nearest,
      m_clamp = False,
      m_renderState = RenderState_ctor members\<rparr>"

record TextOptions =
  fontName :: string
  effectIndex :: "32 word"
  color :: Vector3
  horizontalAlignment :: HAlign
  verticalAlignment :: VAlign
  dropShadowOffset :: Vector2
  dropShadowColor :: Color
  rotation :: f32
  depthTestEnabled :: bool

text \<open>
  \<^verbatim>\<open>TextOptions\<close> declares no constructor and no member initialiser (its defaults are named in
  comments only). Its implicit default constructor makes \<^verbatim>\<open>fontName\<close> the empty string and
  assigns no other member: the numbers, enumerations and the flag keep what the object's
  \<open>storage\<close> held, and so do the vectors and the colour, whose AzCore default constructors
  initialise nothing.
\<close>

definition TextOptions_ctor :: "TextOptions \<Rightarrow> TextOptions" where
  "TextOptions_ctor storage = storage\<lparr>fontName := []\<rparr>"

text \<open>Storage that holds zero bytes only, as value-initialisation \<^verbatim>\<open>TextOptions{}\<close> starts from.\<close>

definition zero_TextOptions :: TextOptions where
  "zero_TextOptions =
     \<lparr>fontName = [],
      effectIndex = 0,
      TextOptions.color = mk_Vector3 (Fin 0) (Fin 0) (Fin 0),
      horizontalAlignment = HAlign_Left,
      verticalAlignment = VAlign_Top,
      dropShadowOffset = mk_Vector2 (Fin 0) (Fin 0),
      dropShadowColor = mk_Color (Fin 0) (Fin 0) (Fin 0) (Fin 0),
      rotation = Fin 0,
      depthTestEnabled = False\<rparr>"

record VertexPosColUV =
  position :: Vector2
  color :: Color
  uv :: Vector2

definition mk_VertexPosColUV :: "Vector2 \<Rightarrow> Color \<Rightarrow> Vector2 \<Rightarrow> VertexPosColUV" where
  "mk_VertexPosColUV inPos inColor inUV =
     \<lparr>position = inPos, VertexPosColUV.color = inColor, uv = inUV\<rparr>"

text \<open>
  An image handle \<^verbatim>\<open>AZ::Data::Instance<AZ::RPI::Image>\<close> is null or names an image; the four
  corners of \<^verbatim>\<open>UiTransformInterface::RectPoints\<close> are top left, top right, bottom right, bottom
  left; a pointer to two texture coordinates is null or the pair.
\<close>

type_synonym Image = "nat option"

type_synonym RectPoints = "Vector2 \<times> Vector2 \<times> Vector2 \<times> Vector2"

type_synonym TexCoords = "(Vector2 \<times> Vector2) option"


section \<open>The engine behind the interface \<^verbatim>\<open>IDraw2d\<close>\<close>

text \<open>
  Modelled from the spec: every member function of \<^verbatim>\<open>IDraw2d\<close> is pure virtual in the header,
  and the class that implements them is not among the sources. The spec gives the engine's
  state as the current defer flag, the current sort key, the default \<^verbatim>\<open>ImageOptions\<close> and
  \<^verbatim>\<open>TextOptions\<close> and the deferred-primitive sequence, a deferred primitive as a captured
  draw invocation (operation kind and parameters) tagged with the sort key, and the text
  size as the answer of a font-measurement service. What has been rasterized is kept as a
  sequence too.
\<close>

datatype Primitive =
    Prim_Image Image Vector2 Vector2 f32 f32 "Vector2 option" TexCoords ImageOptions
  | Prim_ImageAligned Image Vector2 Vector2 HAlign VAlign f32 f32 TexCoords ImageOptions
  | Prim_Quad Image "VertexPosColUV list" Rounding bool RenderState
  | Prim_Line Vector2 Vector2 Color Rounding RenderState
  | Prim_LineTextured Image "VertexPosColUV list" Rounding RenderState
  | Prim_Text string Vector2 f32 f32 TextOptions
  | Prim_RectOutlineTextured Image RectPoints Vector2 Vector2 Color "32 word"

record Engine =
  m_deferCalls :: bool
  m_sortKey :: "64 word"
  m_defaultImageOptions :: ImageOptions
  m_defaultTextOptions :: TextOptions
  m_deferredPrimitives :: "(64 word \<times> Primitive) list"
  m_rasterized :: "Primitive list"
  m_measureText :: "string \<Rightarrow> f32 \<Rightarrow> TextOptions \<Rightarrow> Vector2"

text \<open>
  Modelled from the spec: \<^verbatim>\<open>SetDeferPrimitives(bool)/GetDeferPrimitives() -> bool\<close> toggle
  and report whether subsequent draw operations enqueue instead of rasterizing.
\<close>

definition IDraw2d_GetDeferPrimitives :: "Engine \<Rightarrow> bool" where
  "IDraw2d_GetDeferPrimitives e = m_deferCalls e"

definition IDraw2d_SetDeferPrimitives :: "bool \<Rightarrow> Engine \<Rightarrow> Engine" where
  "IDraw2d_SetDeferPrimitives deferPrimitives e = e\<lparr>m_deferCalls := deferPrimitives\<rparr>"

text \<open>
  Modelled from the spec: \<^verbatim>\<open>GetDefaultImageOptions()/GetDefaultTextOptions()\<close> return the
  engine's current default records.
\<close>

definition IDraw2d_GetDefaultImageOptions :: "Engine \<Rightarrow> ImageOptions" where
  "IDraw2d_GetDefaultImageOptions e = m_defaultImageOptions e"

definition IDraw2d_GetDefaultTextOptions :: "Engine \<Rightarrow> TextOptions" where
  "IDraw2d_GetDefaultTextOptions e = m_defaultTextOptions e"

text \<open>
  Modelled from the spec: in Immediate mode every draw operation rasterizes synchronously;
  in Deferred mode it appends a captured primitive, with the currently set sort key, to the
  queue.
\<close>

definition submit :: "Primitive \<Rightarrow> Engine \<Rightarrow> Engine" where
  "submit prim e =
     (if m_deferCalls e
      then e\<lparr>m_deferredPrimitives := m_deferredPrimitives e @ [(m_sortKey e, prim)]\<rparr>
      else e\<lparr>m_rasterized := m_rasterized e @ [prim]\<rparr>)"

text \<open>
  Modelled from the spec: the draw operations of the engine; a missing options record means
  the engine's current default.
\<close>

definition IDraw2d_DrawImage ::
  "Image \<Rightarrow> Vector2 \<Rightarrow> Vector2 \<Rightarrow> f32 \<Rightarrow> f32 \<Rightarrow> Vector2 option \<Rightarrow> TexCoords \<Rightarrow>
   ImageOptions option \<Rightarrow> Engine \<Rightarrow> Engine" where
  "IDraw2d_DrawImage image' pos size' opacity rot pivotPoint minMaxTexCoords imageOptions e =
     submit (Prim_Image image' pos size' opacity rot pivotPoint minMaxTexCoords
       (case imageOptions of None \<Rightarrow> m_defaultImageOptions e | Some opts \<Rightarrow> opts)) e"

definition IDraw2d_DrawImageAligned ::
  "Image \<Rightarrow> Vector2 \<Rightarrow> Vector2 \<Rightarrow> HAlign \<Rightarrow> VAlign \<Rightarrow> f32 \<Rightarrow> f32 \<Rightarrow> TexCoords \<Rightarrow>
   ImageOptions option \<Rightarrow> Engine \<Rightarrow> Engine" where
  "IDraw2d_DrawImageAligned image' pos size' hAlign vAlign opacity rot minMaxTexCoords
       imageOptions e =
     submit (Prim_ImageAligned image' pos size' hAlign vAlign opacity rot minMaxTexCoords
       (case imageOptions of None \<Rightarrow> m_defaultImageOptions e | Some opts \<Rightarrow> opts)) e"

definition IDraw2d_DrawQuad ::
  "Image \<Rightarrow> VertexPosColUV list \<Rightarrow> Rounding \<Rightarrow> bool \<Rightarrow> RenderState \<Rightarrow> Engine \<Rightarrow> Engine" where
  "IDraw2d_DrawQuad image' verts rounding clamp renderState e =
     submit (Prim_Quad image' verts rounding clamp renderState) e"

definition IDraw2d_DrawLine ::
  "Vector2 \<Rightarrow> Vector2 \<Rightarrow> Color \<Rightarrow> Rounding \<Rightarrow> RenderState \<Rightarrow> Engine \<Rightarrow> Engine" where
  "IDraw2d_DrawLine start end' col rounding renderState e =
     submit (Prim_Line start end' col rounding renderState) e"

definition IDraw2d_DrawLineTextured ::
  "Image \<Rightarrow> VertexPosColUV list \<Rightarrow> Rounding \<Rightarrow> RenderState \<Rightarrow> Engine \<Rightarrow> Engine" where
  "IDraw2d_DrawLineTextured image' verts rounding renderState e =
     submit (Prim_LineTextured image' verts rounding renderState) e"

definition IDraw2d_DrawText ::
  "string \<Rightarrow> Vector2 \<Rightarrow> f32 \<Rightarrow> f32 \<Rightarrow> TextOptions option \<Rightarrow> Engine \<Rightarrow> Engine" where
  "IDraw2d_DrawText textString pos pointSize opacity textOptions e =
     submit (Prim_Text textString pos pointSize opacity
       (case textOptions of None \<Rightarrow> m_defaultTextOptions e | Some opts \<Rightarrow> opts)) e"

definition IDraw2d_DrawRectOutlineTextured ::
  "Image \<Rightarrow> RectPoints \<Rightarrow> Vector2 \<Rightarrow> Vector2 \<Rightarrow> Color \<Rightarrow> 32 word \<Rightarrow> Engine \<Rightarrow> Engine" where
  "IDraw2d_DrawRectOutlineTextured image' points rightVec downVec col lineThickness e =
     submit (Prim_RectOutlineTextured image' points rightVec downVec col lineThickness) e"

text \<open>
  Modelled from the spec: \<^verbatim>\<open>GetTextSize\<close> is a pure query, with no side effects, that
  delegates to the font-measurement collaborator.
\<close>

definition IDraw2d_GetTextSize :: "string \<Rightarrow> f32 \<Rightarrow> TextOptions option \<Rightarrow> Engine \<Rightarrow> Vector2" where
  "IDraw2d_GetTextSize textString pointSize textOptions e =
     m_measureText e textString pointSize
       (case textOptions of None \<Rightarrow> m_defaultTextOptions e | Some opts \<Rightarrow> opts)"

text \<open>
  Modelled from the spec: the engine's constructor is not among the sources. An engine that
  has not been reconfigured returns default records matching the documented defaults: tint
  white, rounding Nearest, clamp false, blend enabled and depth disabled for images; for
  text the values that the member comments of \<^verbatim>\<open>TextOptions\<close> name. The spec does not name
  the mode a new engine is in; here it is Immediate, with sort key 0 and nothing queued.
\<close>

definition documented_TextOptions :: TextOptions where
  "documented_TextOptions =
     \<lparr>fontName = ''default'',
      effectIndex = 0,
      TextOptions.color = mk_Vector3 (f32_of_int 1) (f32_of_int 1) (f32_of_int 1),
      horizontalAlignment = HAlign_Left,
      verticalAlignment = VAlign_Top,
      dropShadowOffset = mk_Vector2 (f32_of_int 0) (f32_of_int 0),
      dropShadowColor = mk_Color (f32_of_int 0) (f32_of_int 0) (f32_of_int 0) (f32_of_int 0),
      rotation = f32_of_int 0,
      depthTestEnabled = False\<rparr>"

definition Engine_ctor ::
  "RenderState \<Rightarrow> (string \<Rightarrow> f32 \<Rightarrow> TextOptions \<Rightarrow> Vector2) \<Rightarrow> Engine" where
  "Engine_ctor members measureText =
     \<lparr>m_deferCalls = False,
      m_sortKey = 0,
      m_defaultImageOptions = ImageOptions_ctor members,
      m_defaultTextOptions = documented_TextOptions,
      m_deferredPrimitives = [],
      m_rasterized = [],
      m_measureText = measureText\<rparr>"


section \<open>The program state\<close>

text \<open>
  A \<^verbatim>\<open>Draw2dHelper\<close> holds a pointer to its engine, and nested helpers point to the same
  engine: the engines live in a store, by address, and a pointer is \<open>None\<close> (null) or an
  address. The source calls through every non-null pointer unchecked, so every address holds
  an engine. The global \<^verbatim>\<open>gEnv\<close> is null or an environment whose \<^verbatim>\<open>pLyShine\<close> is null or an
  \<^verbatim>\<open>ILyShine\<close>, which answers \<^verbatim>\<open>GetDraw2d()\<close> with a pointer.
\<close>

record ILyShine =
  draw2d_ptr :: "nat option"

record SSystemGlobalEnvironment =
  pLyShine :: "ILyShine option"

record World =
  engines :: "nat \<Rightarrow> Engine"
  gEnv :: "SSystemGlobalEnvironment option"

definition ILyShine_GetDraw2d :: "ILyShine \<Rightarrow> nat option" where
  "ILyShine_GetDraw2d ly = draw2d_ptr ly"

text \<open>A call of an engine method through the pointer \<open>p\<close> changes the engine at \<open>p\<close>.\<close>

definition call :: "nat \<Rightarrow> (Engine \<Rightarrow> Engine) \<Rightarrow> World \<Rightarrow> World" where
  "call p method w = w\<lparr>engines := (engines w)(p := method (engines w p))\<rparr>"

section \<open>The class \<^verbatim>\<open>Draw2dHelper\<close>\<close>

record Draw2dHelper =
  m_imageOptions :: ImageOptions
  m_textOptions :: TextOptions
  m_draw2d :: "nat option"
  m_previousDeferCalls :: bool

definition GetDefaultDraw2d :: "World \<Rightarrow> nat option" where
  "GetDefaultDraw2d w =
     (case gEnv w of
        None \<Rightarrow> None
      | Some env \<Rightarrow>
          (case pLyShine env of
             None \<Rightarrow> None
           | Some ly \<Rightarrow> ILyShine_GetDraw2d ly))"

definition InitCommon ::
  "nat option \<Rightarrow> bool \<Rightarrow> Draw2dHelper \<Rightarrow> World \<Rightarrow> Draw2dHelper \<times> World" where
  "InitCommon draw2d deferCalls this w =
     (let this = this\<lparr>m_draw2d := draw2d\<rparr>;
          this = (if m_draw2d this = None then this\<lparr>m_draw2d := GetDefaultDraw2d w\<rparr> else this)
      in case m_draw2d this of
           None \<Rightarrow> (this, w)
         | Some p \<Rightarrow>
             (let this = this\<lparr>m_previousDeferCalls := IDraw2d_GetDeferPrimitives (engines w p)\<rparr>;
                  w = call p (IDraw2d_SetDeferPrimitives deferCalls) w;
                  this = this\<lparr>m_imageOptions := IDraw2d_GetDefaultImageOptions (engines w p)\<rparr>;
                  this = this\<lparr>m_textOptions := IDraw2d_GetDefaultTextOptions (engines w p)\<rparr>
              in (this, w)))"

text \<open>
  Before the body of a constructor runs, the members are default-constructed:
  \<^verbatim>\<open>m_imageOptions\<close> by its initialisers, \<^verbatim>\<open>m_textOptions\<close> by its implicit constructor; the
  pointer and the saved flag keep what the object's \<open>storage\<close> held.
\<close>

definition Draw2dHelper_members :: "RenderState \<Rightarrow> Draw2dHelper \<Rightarrow> Draw2dHelper" where
  "Draw2dHelper_members members storage =
     storage\<lparr>m_imageOptions := ImageOptions_ctor members,
             m_textOptions := TextOptions_ctor (m_textOptions storage)\<rparr>"

text \<open>The constructors \<^verbatim>\<open>Draw2dHelper(bool)\<close> and \<^verbatim>\<open>Draw2dHelper(IDraw2d*, bool)\<close>.\<close>

definition Draw2dHelper_ctor_default ::
  "RenderState \<Rightarrow> Draw2dHelper \<Rightarrow> bool \<Rightarrow> World \<Rightarrow> Draw2dHelper \<times> World" where
  "Draw2dHelper_ctor_default members storage deferCalls w =
     InitCommon None deferCalls (Draw2dHelper_members members storage) w"

definition Draw2dHelper_ctor ::
  "RenderState \<Rightarrow> Draw2dHelper \<Rightarrow> nat option \<Rightarrow> bool \<Rightarrow> World \<Rightarrow> Draw2dHelper \<times> World" where
  "Draw2dHelper_ctor members storage draw2d deferCalls w =
     InitCommon draw2d deferCalls (Draw2dHelper_members members storage) w"

text \<open>The destructor; the helper is gone afterwards, the world stays.\<close>

definition Draw2dHelper_dtor :: "Draw2dHelper \<Rightarrow> World \<Rightarrow> World" where
  "Draw2dHelper_dtor this w =
     (case m_draw2d this of
        Some p \<Rightarrow> call p (IDraw2d_SetDeferPrimitives (m_previousDeferCalls this)) w
      | None \<Rightarrow> w)"

text \<open>
  The forwarding draw methods. Each takes the helper and the world and returns both, as
  every member function here does; the engine gets the helper's own option record.
\<close>

definition DrawImage ::
  "Image \<Rightarrow> Vector2 \<Rightarrow> Vector2 \<Rightarrow> f32 \<Rightarrow> f32 \<Rightarrow> Vector2 option \<Rightarrow> TexCoords \<Rightarrow>
   Draw2dHelper \<Rightarrow> World \<Rightarrow> Draw2dHelper \<times> World" where
  "DrawImage image' pos size' opacity rot pivotPoint minMaxTexCoords this w =
     (case m_draw2d this of
        Some p \<Rightarrow>
          (this, call p (IDraw2d_DrawImage image' pos size' opacity rot pivotPoint
                   minMaxTexCoords (Some (m_imageOptions this))) w)
      | None \<Rightarrow> (this, w))"

definition DrawImageAligned ::
  "Image \<Rightarrow> Vector2 \<Rightarrow> Vector2 \<Rightarrow> HAlign \<Rightarrow> VAlign \<Rightarrow> f32 \<Rightarrow> f32 \<Rightarrow> TexCoords \<Rightarrow>
   Draw2dHelper \<Rightarrow> World \<Rightarrow> Draw2dHelper \<times> World" where
  "DrawImageAligned image' pos size' hAlign vAlign opacity rot minMaxTexCoords this w =
     (case m_draw2d this of
        Some p \<Rightarrow>
          (this, call p (IDraw2d_DrawImageAligned image' pos size' hAlign vAlign opacity rot
                   minMaxTexCoords (Some (m_imageOptions this))) w)
      | None \<Rightarrow> (this, w))"

definition DrawQuad ::
  "Image \<Rightarrow> VertexPosColUV list \<Rightarrow> Rounding \<Rightarrow> bool \<Rightarrow> RenderState \<Rightarrow>
   Draw2dHelper \<Rightarrow> World \<Rightarrow> Draw2dHelper \<times> World" where
  "DrawQuad image' verts rounding clamp renderState this w =
     (case m_draw2d this of
        Some p \<Rightarrow> (this, call p (IDraw2d_DrawQuad image' verts rounding clamp renderState) w)
      | None \<Rightarrow> (this, w))"

definition DrawLine ::
  "Vector2 \<Rightarrow> Vector2 \<Rightarrow> Color \<Rightarrow> Rounding \<Rightarrow> RenderState \<Rightarrow>
   Draw2dHelper \<Rightarrow> World \<Rightarrow> Draw2dHelper \<times> World" where
  "DrawLine start end' col rounding renderState this w =
     (case m_draw2d this of
        Some p \<Rightarrow> (this, call p (IDraw2d_DrawLine start end' col rounding renderState) w)
      | None \<Rightarrow> (this, w))"

definition DrawLineTextured ::
  "Image \<Rightarrow> VertexPosColUV list \<Rightarrow> Rounding \<Rightarrow> RenderState \<Rightarrow>
   Draw2dHelper \<Rightarrow> World \<Rightarrow> Draw2dHelper \<times> World" where
  "DrawLineTextured image' verts rounding renderState this w =
     (case m_draw2d this of
        Some p \<Rightarrow> (this, call p (IDraw2d_DrawLineTextured image' verts rounding renderState) w)
      | None \<Rightarrow> (this, w))"

definition DrawRectOutlineTextured ::
  "Image \<Rightarrow> RectPoints \<Rightarrow> Vector2 \<Rightarrow> Vector2 \<Rightarrow> Color \<Rightarrow> 32 word \<Rightarrow>
   Draw2dHelper \<Rightarrow> World \<Rightarrow> Draw2dHelper \<times> World" where
  "DrawRectOutlineTextured image' points rightVec downVec col lineThickness this w =
     (case m_draw2d this of
        Some p \<Rightarrow>
          (this, call p (IDraw2d_DrawRectOutlineTextured image' points rightVec downVec col
                   lineThickness) w)
      | None \<Rightarrow> (this, w))"

definition DrawText ::
  "string \<Rightarrow> Vector2 \<Rightarrow> f32 \<Rightarrow> f32 \<Rightarrow> Draw2dHelper \<Rightarrow> World \<Rightarrow> Draw2dHelper \<times> World" where
  "DrawText textString pos pointSize opacity this w =
     (case m_draw2d this of
        Some p \<Rightarrow>
          (this, call p (IDraw2d_DrawText textString pos pointSize opacity
                   (Some (m_textOptions this))) w)
      | None \<Rightarrow> (this, w))"

definition GetTextSize ::
  "string \<Rightarrow> f32 \<Rightarrow> Draw2dHelper \<Rightarrow> World \<Rightarrow> Vector2 \<times> Draw2dHelper \<times> World" where
  "GetTextSize textString pointSize this w =
     (case m_draw2d this of
        Some p \<Rightarrow>
          (IDraw2d_GetTextSize textString pointSize (Some (m_textOptions this)) (engines w p),
           this, w)
      | None \<Rightarrow> (mk_Vector2 (f32_of_int 0) (f32_of_int 0), this, w))"

text \<open>State management: the setters.\<close>

definition SetImageBlendMode ::
  "TargetBlendState \<Rightarrow> Draw2dHelper \<Rightarrow> World \<Rightarrow> Draw2dHelper \<times> World" where
  "SetImageBlendMode blendState this w =
     (this\<lparr>m_imageOptions := (m_imageOptions this)
        \<lparr>m_renderState := (m_renderState (m_imageOptions this))
           \<lparr>m_blendState := blendState\<rparr>\<rparr>\<rparr>, w)"

definition SetImageColor :: "Vector3 \<Rightarrow> Draw2dHelper \<Rightarrow> World \<Rightarrow> Draw2dHelper \<times> World" where
  "SetImageColor col this w =
     (this\<lparr>m_imageOptions := (m_imageOptions this)\<lparr>ImageOptions.color := col\<rparr>\<rparr>, w)"

definition SetImagePixelRounding ::
  "Rounding \<Rightarrow> Draw2dHelper \<Rightarrow> World \<Rightarrow> Draw2dHelper \<times> World" where
  "SetImagePixelRounding round' this w =
     (this\<lparr>m_imageOptions := (m_imageOptions this)\<lparr>pixelRounding := round'\<rparr>\<rparr>, w)"

definition SetImageDepthState ::
  "DepthState \<Rightarrow> Draw2dHelper \<Rightarrow> World \<Rightarrow> Draw2dHelper \<times> World" where
  "SetImageDepthState depthState this w =
     (this\<lparr>m_imageOptions := (m_imageOptions this)
        \<lparr>m_renderState := (m_renderState (m_imageOptions this))
           \<lparr>m_depthState := depthState\<rparr>\<rparr>\<rparr>, w)"

definition SetImageClamp :: "bool \<Rightarrow> Draw2dHelper \<Rightarrow> World \<Rightarrow> Draw2dHelper \<times> World" where
  "SetImageClamp clamp this w =
     (this\<lparr>m_imageOptions := (m_imageOptions this)\<lparr>m_clamp := clamp\<rparr>\<rparr>, w)"

definition SetTextFont :: "string \<Rightarrow> Draw2dHelper \<Rightarrow> World \<Rightarrow> Draw2dHelper \<times> World" where
  "SetTextFont name this w =
     (this\<lparr>m_textOptions := (m_textOptions this)\<lparr>fontName := name\<rparr>\<rparr>, w)"

definition SetTextEffectIndex ::
  "32 word \<Rightarrow> Draw2dHelper \<Rightarrow> World \<Rightarrow> Draw2dHelper \<times> World" where
  "SetTextEffectIndex idx this w =
     (this\<lparr>m_textOptions := (m_textOptions this)\<lparr>effectIndex := idx\<rparr>\<rparr>, w)"

definition SetTextColor :: "Vector3 \<Rightarrow> Draw2dHelper \<Rightarrow> World \<Rightarrow> Draw2dHelper \<times> World" where
  "SetTextColor col this w =
     (this\<lparr>m_textOptions := (m_textOptions this)\<lparr>TextOptions.color := col\<rparr>\<rparr>, w)"

definition SetTextAlignment ::
  "HAlign \<Rightarrow> VAlign \<Rightarrow> Draw2dHelper \<Rightarrow> World \<Rightarrow> Draw2dHelper \<times> World" where
  "SetTextAlignment hAlign vAlign this w =
     (let this = this\<lparr>m_textOptions := (m_textOptions this)\<lparr>horizontalAlignment := hAlign\<rparr>\<rparr>;
          this = this\<lparr>m_textOptions := (m_textOptions this)\<lparr>verticalAlignment := vAlign\<rparr>\<rparr>
      in (this, w))"

definition SetTextDropShadow ::
  "Vector2 \<Rightarrow> Color \<Rightarrow> Draw2dHelper \<Rightarrow> World \<Rightarrow> Draw2dHelper \<times> World" where
  "SetTextDropShadow offs col this w =
     (let this = this\<lparr>m_textOptions := (m_textOptions this)\<lparr>dropShadowOffset := offs\<rparr>\<rparr>;
          this = this\<lparr>m_textOptions := (m_textOptions this)\<lparr>dropShadowColor := col\<rparr>\<rparr>
      in (this, w))"

definition SetTextRotation :: "f32 \<Rightarrow> Draw2dHelper \<Rightarrow> World \<Rightarrow> Draw2dHelper \<times> World" where
  "SetTextRotation rot this w =
     (this\<lparr>m_textOptions := (m_textOptions this)\<lparr>rotation := rot\<rparr>\<rparr>, w)"

definition SetTextDepthTestEnabled ::
  "bool \<Rightarrow> Draw2dHelper \<Rightarrow> World \<Rightarrow> Draw2dHelper \<times> World" where
  "SetTextDepthTestEnabled enabled this w =
     (this\<lparr>m_textOptions := (m_textOptions this)\<lparr>depthTestEnabled := enabled\<rparr>\<rparr>, w)"

section \<open>Example values\<close>

text \<open>
  Concrete values at which the theorems below are instantiated: what Atom's default
  constructors might leave in a render state, the storage of a helper object, an engine that
  measures every text as empty, a world whose global environment leads to the engine at
  address 0, and a world without a global environment.
\<close>

definition example_members :: RenderState where
  "example_members =
     \<lparr>m_blendState = \<lparr>TargetBlendState.m_enable = False, m_blendSource = OtherBlendFactor 1,
                       m_blendDest = OtherBlendFactor 0\<rparr>,
      m_depthState = \<lparr>DepthState.m_enable = True, m_func = 1\<rparr>\<rparr>"

definition example_storage :: Draw2dHelper where
  "example_storage =
     \<lparr>m_imageOptions = ImageOptions_ctor example_members,
      m_textOptions = zero_TextOptions,
      m_draw2d = Some 7,
      m_previousDeferCalls = True\<rparr>"

definition example_engine :: Engine where
  "example_engine = Engine_ctor example_members (\<lambda>textString pointSize opts. CreateZero)"

definition example_world :: World where
  "example_world =
     \<lparr>engines = (\<lambda>p. example_engine),
      gEnv = Some \<lparr>pLyShine = Some \<lparr>draw2d_ptr = Some 0\<rparr>\<rparr>\<rparr>"

definition example_world_no_engine :: World where
  "example_world_no_engine = \<lparr>engines = (\<lambda>p. example_engine), gEnv = None\<rparr>"

section \<open>Properties of rounding\<close>

text \<open>
  How many bits rounding drops: none below \<open>2\<^sup>2\<^sup>4\<close>, and \<open>t\<close> for a magnitude in
  \<open>[2\<^sup>2\<^sup>3\<^sup>+\<^sup>t, 2\<^sup>2\<^sup>4\<^sup>+\<^sup>t)\<close>.
\<close>

lemma excess_bits_small: "a < 2 ^ 24 \<Longrightarrow> excess_bits a = 0"
  by (simp add: excess_bits.simps)

lemma excess_bits_step: "2 ^ 24 \<le> a \<Longrightarrow> excess_bits a = Suc (excess_bits (a div 2))"
  by (subst excess_bits.simps) simp

lemma excess_bits_range:
  "2 ^ (23 + t) \<le> a \<Longrightarrow> a < 2 ^ (24 + t) \<Longrightarrow> excess_bits a = t"
proof (induction t arbitrary: a)
  case 0
  then show ?case by (simp add: excess_bits_small)
next
  case (Suc t)
  have pos: "(1::int) \<le> 2 ^ t" by simp
  have a24: "2 ^ 24 \<le> a"
  proof -
    from Suc.prems(1) have "16777216 * 2 ^ t \<le> a" by (simp add: power_add)
    with pos have "16777216 \<le> a" by linarith
    then show ?thesis by simp
  qed
  have lo: "2 ^ (23 + t) \<le> a div 2" using Suc.prems(1) by (simp add: power_add)
  have hi: "a div 2 < 2 ^ (24 + t)" using Suc.prems(2) by (simp add: power_add)
  have "excess_bits (a div 2) = t" using Suc.IH [OF lo hi] .
  then show ?case using a24 by (simp add: excess_bits_step)
qed

lemma excess_bits_bounds:
  "2 ^ 24 \<le> a \<Longrightarrow> 2 ^ (23 + excess_bits a) \<le> a \<and> a < 2 ^ (24 + excess_bits a)"
proof (induction a rule: excess_bits.induct)
  case (1 a)
  have e: "excess_bits a = Suc (excess_bits (a div 2))"
    using "1.prems" by (rule excess_bits_step)
  show ?case
  proof (cases "a div 2 < 2 ^ 24")
    case True
    then have "excess_bits (a div 2) = 0" by (rule excess_bits_small)
    then show ?thesis using True "1.prems" e by simp
  next
    case False
    then have ih: "2 ^ (23 + excess_bits (a div 2)) \<le> a div 2 \<and> a div 2 < 2 ^ (24 + excess_bits (a div 2))"
      using "1.IH" "1.prems" by simp
    show ?thesis using ih unfolding e by (simp add: power_add; linarith)
  qed
qed

lemma qr_bounds:
  fixes q r :: int
  assumes "2 ^ 23 \<le> q" "q < 2 ^ 24" "0 \<le> r" "r < 2 ^ t"
  shows "2 ^ (23 + t) \<le> q * 2 ^ t + r" "q * 2 ^ t + r < 2 ^ (24 + t)"
proof -
  have A: "8388608 * 2 ^ t \<le> q * (2::int) ^ t"
    using assms(1) by (intro mult_right_mono) simp_all
  have B: "(2::int) ^ (23 + t) = 8388608 * 2 ^ t" by (simp add: power_add)
  show "2 ^ (23 + t) \<le> q * 2 ^ t + r"
    unfolding B using A assms(3) by linarith
  have "q + 1 \<le> 16777216" using assms(2) by simp
  then have C: "(q + 1) * 2 ^ t \<le> 16777216 * (2::int) ^ t"
    by (intro mult_right_mono) simp_all
  have D: "(2::int) ^ (24 + t) = 16777216 * 2 ^ t" by (simp add: power_add)
  have E: "(q + 1) * (2::int) ^ t = q * 2 ^ t + 2 ^ t" by (simp add: algebra_simps)
  show "q * 2 ^ t + r < 2 ^ (24 + t)"
    unfolding D using C assms(4) unfolding E by linarith
qed

lemma round_mag_qr:
  assumes "2 ^ 23 \<le> q" "q < 2 ^ 24" "0 \<le> r" "r < 2 ^ t"
  shows "round_mag (q * 2 ^ t + r) 0 =
           (if 2 ^ t < 2 * r \<or> (2 * r = 2 ^ t \<and> odd q) then q + 1 else q) * 2 ^ t"
proof -
  have e: "excess_bits (q * 2 ^ t + r) = t"
    using qr_bounds [OF assms] by (rule excess_bits_range)
  show ?thesis
    unfolding round_mag_def Let_def e
    using assms(3,4) by (simp add: div_pos_pos_trivial)
qed

lemma round_mag_small: "a < 2 ^ 24 \<Longrightarrow> round_mag a 0 = a"
  by (simp add: round_mag_def excess_bits_small)

lemma excess_bits_le:
  assumes "0 \<le> q" "q < 2 ^ 24"
  shows "excess_bits (q * 2 ^ t) \<le> t"
proof (cases "q * 2 ^ t < 2 ^ 24")
  case True
  then show ?thesis by (simp add: excess_bits_small)
next
  case False
  then have b: "2 ^ (23 + excess_bits (q * 2 ^ t)) \<le> q * 2 ^ t"
    using excess_bits_bounds [of "q * 2 ^ t"] by simp
  have "q * 2 ^ t < 2 ^ 24 * (2::int) ^ t"
    using assms(2) by (intro mult_strict_right_mono) simp_all
  then have "q * 2 ^ t < 2 ^ (24 + t)" by (simp add: power_add)
  with b have "(2::int) ^ (23 + excess_bits (q * 2 ^ t)) < 2 ^ (24 + t)" by linarith
  then have "23 + excess_bits (q * 2 ^ t) < 24 + t" by (rule power_less_imp_less_exp [rotated]) simp
  then show ?thesis by simp
qed

lemma round_mag_exact_s:
  assumes "0 \<le> q" "q < 2 ^ 24" "s \<le> t"
  shows "round_mag (q * 2 ^ t) s = q * 2 ^ (t - s)"
proof -
  define T where "T = max s (excess_bits (q * 2 ^ t))"
  have Tt: "T \<le> t" and sT: "s \<le> T"
    using excess_bits_le [OF assms(1,2), of t] assms(3) by (simp_all add: T_def)
  have split: "q * (2::int) ^ t = (q * 2 ^ (t - T)) * 2 ^ T"
    using Tt by (simp add: power_add [symmetric])
  have d: "(q * 2 ^ t) div 2 ^ T = q * 2 ^ (t - T)" by (subst split) simp
  have m: "(q * 2 ^ t) mod 2 ^ T = 0" by (subst split) simp
  have "round_mag (q * 2 ^ t) s = q * 2 ^ (t - T) * 2 ^ (T - s)"
    unfolding round_mag_def Let_def T_def [symmetric] d m by simp
  also have "\<dots> = q * 2 ^ ((t - T) + (T - s))" by (simp add: power_add)
  also have "(t - T) + (T - s) = t - s" using Tt sT by simp
  finally show ?thesis .
qed

lemma round_f32_exact_s:
  assumes "\<bar>q\<bar> < 2 ^ 24" "s \<le> t" "t - s \<le> 253"
  shows "round_f32 (q * 2 ^ t) s = Fin (q * 2 ^ (t - s))"
proof -
  have a: "\<bar>q * 2 ^ t\<bar> = \<bar>q\<bar> * 2 ^ t" by (simp add: abs_mult)
  have rm: "round_mag \<bar>q * 2 ^ t\<bar> s = \<bar>q\<bar> * 2 ^ (t - s)"
    unfolding a using assms(1,2) by (intro round_mag_exact_s) simp_all
  have "\<bar>q\<bar> * 2 ^ (t - s) < 2 ^ 24 * (2::int) ^ (t - s)"
    using assms(1) by (intro mult_strict_right_mono) simp_all
  also have "\<dots> = 2 ^ (24 + (t - s))" by (simp add: power_add)
  also have "\<dots> \<le> (2::int) ^ 277" using assms(3) by (intro power_increasing) simp_all
  finally have fin: "\<not> 2 ^ 277 \<le> \<bar>q\<bar> * (2::int) ^ (t - s)" by simp
  have neg: "q * (2::int) ^ t < 0 \<longleftrightarrow> q < 0" by (simp add: mult_less_0_iff)
  show ?thesis
    unfolding round_f32_def Let_def rm using fin by (simp add: neg)
qed

lemma round_f32_exact:
  "\<bar>q\<bar> < 2 ^ 24 \<Longrightarrow> t \<le> 253 \<Longrightarrow> round_f32 (q * 2 ^ t) 0 = Fin (q * 2 ^ t)"
  using round_f32_exact_s [of q 0 t] by simp

lemma f32_of_int_small: "\<bar>n\<bar> < 2 ^ 24 \<Longrightarrow> f32_of_int n = Fin (n * 2 ^ 149)"
  unfolding f32_of_int_def by (rule round_f32_exact) simp_all

lemma f32_of_int_0: "f32_of_int 0 = Fin 0"
  by (simp add: f32_of_int_small)

lemma f32_of_int_1: "f32_of_int 1 = Fin (2 ^ 149)"
  by (simp add: f32_of_int_small)

lemma round_f32_nonneg:
  "0 \<le> n \<Longrightarrow> round_mag n 0 = m \<Longrightarrow> m < 2 ^ 277 \<Longrightarrow> round_f32 n 0 = Fin m"
  by (simp add: round_f32_def)

lemma round_f32_neg:
  "n < 0 \<Longrightarrow> round_mag (- n) 0 = m \<Longrightarrow> m < 2 ^ 277 \<Longrightarrow> round_f32 n 0 = Fin (- m)"
  by (simp add: round_f32_def)

lemma norm_lt_277:
  fixes q :: int
  assumes "q \<le> 2 ^ 24" "t \<le> 253"
  shows "q * 2 ^ t < 2 ^ 277 + 1" "q * 2 ^ t \<le> 2 ^ 277"
proof -
  have "q * 2 ^ t \<le> 2 ^ 24 * (2::int) ^ t"
    using assms(1) by (intro mult_right_mono) simp_all
  also have "\<dots> = 2 ^ (24 + t)" by (simp add: power_add)
  also have "\<dots> \<le> (2::int) ^ 277" using assms(2) by (intro power_increasing) simp_all
  finally show "q * 2 ^ t \<le> 2 ^ 277" .
  then show "q * 2 ^ t < 2 ^ 277 + 1" by simp
qed

lemma norm_lt_277':
  fixes q :: int
  assumes "q < 2 ^ 24" "t \<le> 253"
  shows "q * 2 ^ t < 2 ^ 277"
proof -
  have "q * 2 ^ t < 2 ^ 24 * (2::int) ^ t"
    using assms(1) by (intro mult_strict_right_mono) simp_all
  also have "\<dots> = 2 ^ (24 + t)" by (simp add: power_add)
  also have "\<dots> \<le> (2::int) ^ 277" using assms(2) by (intro power_increasing) simp_all
  finally show ?thesis .
qed

lemma pow_split: "s \<le> t \<Longrightarrow> (2::int) ^ t = 2 ^ (t - s) * 2 ^ s"
  by (simp add: power_add [symmetric])

lemma floor_units0: "floor_f32 (Fin (y * 2 ^ 149)) = Fin (y * 2 ^ 149)"
  by simp

lemma pow_ge_150: "150 \<le> t \<Longrightarrow> (2::int) ^ 150 \<le> 2 ^ t"
  by (rule power_increasing) simp_all

lemma nearest_big_pos:
  assumes "2 ^ 23 \<le> q" "q < 2 ^ 24" "150 \<le> t" "t \<le> 253"
  shows "round_f32 (q * 2 ^ t + 2 ^ 148) 0 = Fin (q * 2 ^ t)"
proof -
  have P: "(2::int) ^ 150 \<le> 2 ^ t" using assms(3) by (rule pow_ge_150)
  have r: "(0::int) \<le> 2 ^ 148" "(2::int) ^ 148 < 2 ^ t" using P by simp_all
  have "round_mag (q * 2 ^ t + 2 ^ 148) 0 = q * 2 ^ t"
    using P by (subst round_mag_qr [OF assms(1,2) r]) simp
  moreover have "0 \<le> q * 2 ^ t + (2::int) ^ 148" using assms(1) by simp
  ultimately show ?thesis
    using norm_lt_277' [OF assms(2,4)] by (intro round_f32_nonneg)
qed

lemma nearest_big_neg:
  assumes "2 ^ 23 \<le> q" "q < 2 ^ 24" "150 \<le> t" "t \<le> 253"
  shows "round_f32 (- (q * 2 ^ t) + 2 ^ 148) 0 = Fin (- (q * 2 ^ t))"
proof -
  have P: "(2::int) ^ 150 \<le> 2 ^ t" using assms(3) by (rule pow_ge_150)
  have big: "8388608 * (2::int) ^ t \<le> q * 2 ^ t"
    using assms(1) by (intro mult_right_mono) simp_all
  have "(2::int) ^ 148 < 8388608 * 2 ^ t" using P by simp
  with big have neg: "- (q * 2 ^ t) + (2::int) ^ 148 < 0" by linarith
  have rm: "round_mag (- (- (q * 2 ^ t) + 2 ^ 148)) 0 = q * 2 ^ t"
  proof (cases "q = 2 ^ 23")
    case False
    then have q1: "2 ^ 23 \<le> q - 1" "q - 1 < 2 ^ 24" using assms(1,2) by simp_all
    have r: "0 \<le> 2 ^ t - (2::int) ^ 148" "2 ^ t - (2::int) ^ 148 < 2 ^ t" using P by simp_all
    have e: "- (- (q * 2 ^ t) + 2 ^ 148) = (q - 1) * 2 ^ t + (2 ^ t - (2::int) ^ 148)"
      by (simp add: algebra_simps)
    show ?thesis
      unfolding e using P by (subst round_mag_qr [OF q1 r]) simp
  next
    case True
    define t' where "t' = t - 1"
    have t: "t = Suc t'" using assms(3) by (simp add: t'_def)
    have P': "(2::int) ^ 149 \<le> 2 ^ t'" using P by (simp add: t)
    have q2: "(2::int) ^ 23 \<le> 16777215" "(16777215::int) < 2 ^ 24" by simp_all
    have r: "0 \<le> 2 ^ t' - (2::int) ^ 148" "2 ^ t' - (2::int) ^ 148 < 2 ^ t'" using P' by simp_all
    have e: "- (- (16777216 * 2 ^ t') + 2 ^ 148) = 16777215 * 2 ^ t' + (2 ^ t' - (2::int) ^ 148)"
      by simp
    have res: "q * 2 ^ t = 16777216 * (2::int) ^ t'" by (simp add: True t)
    have "round_mag (16777215 * 2 ^ t' + (2 ^ t' - (2::int) ^ 148)) 0 = 16777216 * 2 ^ t'"
      using P' by (subst round_mag_qr [OF q2 r]) auto
    then show ?thesis by (simp only: e res)
  qed
  show ?thesis
    using neg rm norm_lt_277' [OF assms(2,4)] by (rule round_f32_neg)
qed

lemma nearest_mid_pos:
  assumes "2 ^ 23 \<le> m" "m < 2 ^ 24"
  shows "round_f32 (m * 2 ^ 149 + 2 ^ 148) 0 = Fin ((if odd m then m + 1 else m) * 2 ^ 149)"
proof -
  have r: "(0::int) \<le> 2 ^ 148" "(2::int) ^ 148 < 2 ^ 149" by simp_all
  have rm: "round_mag (m * 2 ^ 149 + 2 ^ 148) 0 = (if odd m then m + 1 else m) * 2 ^ 149"
    by (subst round_mag_qr [OF assms r]) simp
  have nn: "0 \<le> m * 2 ^ 149 + (2::int) ^ 148" using assms(1) by simp
  have "(if odd m then m + 1 else m) \<le> 2 ^ 24" using assms(2) by simp
  then have "(if odd m then m + 1 else m) * 2 ^ 149 \<le> (2::int) ^ 277"
    by (rule norm_lt_277) simp
  moreover have "(if odd m then m + 1 else m) * (2::int) ^ 149 \<noteq> 2 ^ 277"
    using assms(2) by (simp split: if_splits)
  ultimately have "(if odd m then m + 1 else m) * 2 ^ 149 < (2::int) ^ 277" by linarith
  with nn rm show ?thesis by (rule round_f32_nonneg)
qed

lemma nearest_mid_neg:
  assumes "2 ^ 23 < m" "m < 2 ^ 24"
  shows "round_f32 (- (m * 2 ^ 149) + 2 ^ 148) 0 = Fin (- ((if odd m then m - 1 else m) * 2 ^ 149))"
proof -
  have q1: "2 ^ 23 \<le> m - 1" "m - 1 < 2 ^ 24" using assms by simp_all
  have r: "(0::int) \<le> 2 ^ 148" "(2::int) ^ 148 < 2 ^ 149" by simp_all
  have e: "- (- (m * 2 ^ 149) + 2 ^ 148) = (m - 1) * 2 ^ 149 + (2::int) ^ 148"
    by (simp add: algebra_simps)
  have rm: "round_mag (- (- (m * 2 ^ 149) + 2 ^ 148)) 0 = (if odd m then m - 1 else m) * 2 ^ 149"
    unfolding e by (subst round_mag_qr [OF q1 r]) simp
  have neg: "- (m * 2 ^ 149) + (2::int) ^ 148 < 0" using assms(1) by simp
  have "(if odd m then m - 1 else m) < 2 ^ 24" using assms(2) by simp
  then have "(if odd m then m - 1 else m) * 2 ^ 149 < (2::int) ^ 277"
    by (rule norm_lt_277') simp
  with neg rm show ?thesis by (rule round_f32_neg)
qed

lemma nearest_mid_neg_edge:
  "round_f32 (- (2 ^ 23 * 2 ^ 149) + 2 ^ 148) 0 = Fin (- (2 ^ 23 * 2 ^ 149) + 2 ^ 148)"
  using round_f32_exact [of "- 16777215" 148] by simp

lemma nearest_small:
  assumes "\<bar>n\<bar> < 2 ^ 23"
  shows "floor_f32 (round_f32 (n * 2 ^ 149 + 2 ^ 148) 0) = Fin (n * 2 ^ 149)"
proof -
  have e: "n * 2 ^ 149 + 2 ^ 148 = (2 * n + 1) * (2::int) ^ 148" by (simp add: algebra_simps)
  have "\<bar>2 * n + 1\<bar> < 2 ^ 24" using assms by simp
  then have "round_f32 ((2 * n + 1) * 2 ^ 148) 0 = Fin ((2 * n + 1) * 2 ^ 148)"
    by (rule round_f32_exact) simp
  then have "round_f32 (n * 2 ^ 149 + 2 ^ 148) 0 = Fin (n * 2 ^ 149 + 2 ^ 148)"
    by (simp only: e)
  moreover have "(n * 2 ^ 149 + 2 ^ 148) div (2::int) ^ 149 = n" by simp
  ultimately show ?thesis by (simp only: floor_f32.simps)
qed

lemma norm_decomp:
  fixes a :: int
  assumes "2 ^ 24 \<le> a"
  obtains q r t where "a = q * 2 ^ t + r" "2 ^ 23 \<le> q" "q < 2 ^ 24" "0 \<le> r" "r < 2 ^ t"
    "1 \<le> t" "2 ^ (23 + t) \<le> a" "a < 2 ^ (24 + t)"
proof -
  define t where "t = excess_bits a"
  define q where "q = a div 2 ^ t"
  define r where "r = a mod 2 ^ t"
  have b: "2 ^ (23 + t) \<le> a" "a < 2 ^ (24 + t)"
    using excess_bits_bounds [OF assms] by (simp_all add: t_def)
  have t1: "1 \<le> t"
  proof (rule ccontr)
    assume "\<not> 1 \<le> t"
    then have "t = 0" by simp
    with b(2) assms show False by simp
  qed
  have a: "a = q * 2 ^ t + r"
    unfolding q_def r_def by (rule div_mult_mod_eq [symmetric])
  have r: "0 \<le> r" "r < 2 ^ t" by (simp_all add: r_def)
  have "2 ^ 23 * (2::int) ^ t \<le> a" using b(1) by (simp add: power_add)
  then have "(2 ^ 23 * (2::int) ^ t) div 2 ^ t \<le> a div 2 ^ t" by (intro zdiv_mono1) simp_all
  then have q1: "2 ^ 23 \<le> q" by (simp add: q_def)
  have q2: "q < 2 ^ 24"
  proof (rule ccontr)
    assume "\<not> q < 2 ^ 24"
    then have "16777216 \<le> q" by simp
    then have "16777216 * 2 ^ t \<le> q * (2::int) ^ t" by (intro mult_right_mono) simp_all
    with a r(1) have "16777216 * 2 ^ t \<le> a" by linarith
    with b(2) show False by (simp add: power_add)
  qed
  show ?thesis using that [OF a q1 q2 r t1 b] .
qed

lemma round_mag_nonneg: "0 \<le> a \<Longrightarrow> 0 \<le> round_mag a s"
  by (simp add: round_mag_def Let_def pos_imp_zdiv_nonneg_iff)

lemma round_mag_le_172:
  assumes "0 \<le> a" "a < 2 ^ 172 + 2 ^ 148"
  shows "round_mag a 0 \<le> 2 ^ 172"
proof (cases "a < 2 ^ 24")
  case True
  then show ?thesis by (simp add: round_mag_small)
next
  case False
  then have "2 ^ 24 \<le> a" by simp
  then obtain q r t where d: "a = q * 2 ^ t + r" "2 ^ 23 \<le> q" "q < 2 ^ 24" "0 \<le> r" "r < 2 ^ t"
    "1 \<le> t" "2 ^ (23 + t) \<le> a" "a < 2 ^ (24 + t)"
    by (rule norm_decomp)
  have rm: "round_mag a 0 = (if 2 ^ t < 2 * r \<or> (2 * r = 2 ^ t \<and> odd q) then q + 1 else q) * 2 ^ t"
    unfolding d(1) using d(2-5) by (rule round_mag_qr)
  have "(2::int) ^ (23 + t) < 2 ^ 173" using d(7) assms(2) by simp
  then have "23 + t < 173" by (rule power_less_imp_less_exp [rotated]) simp
  then have t149: "t \<le> 149" by simp
  show ?thesis
  proof (cases "t = 149")
    case True
    have q: "q = 2 ^ 23"
    proof (rule ccontr)
      assume "q \<noteq> 2 ^ 23"
      then have "8388609 \<le> q" using d(2) by simp
      then have "8388609 * 2 ^ 149 \<le> q * (2::int) ^ 149" by (intro mult_right_mono) simp_all
      with d(1,4) assms(2) show False by (simp add: True)
    qed
    have "r < 2 ^ 148" using d(1) assms(2) by (simp add: q True)
    then have "\<not> (2 ^ t < 2 * r \<or> (2 * r = 2 ^ t \<and> odd q))" by (simp add: True)
    then show ?thesis unfolding rm by (simp add: q True)
  next
    case False
    then have t148: "t \<le> 148" using t149 by simp
    have "(if 2 ^ t < 2 * r \<or> (2 * r = 2 ^ t \<and> odd q) then q + 1 else q) \<le> 2 ^ 24"
      using d(3) by simp
    then have "round_mag a 0 \<le> 2 ^ 24 * 2 ^ t"
      unfolding rm by (intro mult_right_mono) simp_all
    also have "\<dots> = 2 ^ (24 + t)" by (simp add: power_add)
    also have "\<dots> \<le> (2::int) ^ 172" using t148 by (intro power_increasing) simp_all
    finally show ?thesis .
  qed
qed

lemma nearest_lt_172:
  assumes "\<bar>k\<bar> < 2 ^ 172"
  obtains n where "floor_f32 (round_f32 (k + 2 ^ 148) 0) = Fin (n * 2 ^ 149)" "\<bar>n\<bar> \<le> 2 ^ 23"
proof -
  define m where "m = round_mag \<bar>k + 2 ^ 148\<bar> 0"
  have a: "\<bar>k + 2 ^ 148\<bar> < (2::int) ^ 172 + 2 ^ 148" using assms by simp
  have m0: "0 \<le> m" unfolding m_def by (rule round_mag_nonneg) simp
  have m1: "m \<le> 2 ^ 172" unfolding m_def by (rule round_mag_le_172 [OF _ a]) simp
  note m = m0 m1
  define j where "j = (if k + 2 ^ 148 < 0 then - m else m)"
  have R: "round_f32 (k + 2 ^ 148) 0 = Fin j"
    unfolding round_f32_def Let_def m_def [symmetric] j_def using m1 by simp
  have j: "- (2 ^ 172) \<le> j" "j \<le> 2 ^ 172" using m by (simp_all add: j_def)
  have "(- (8388608 * 2 ^ 149)) div 2 ^ 149 \<le> j div (2::int) ^ 149"
    using j(1) by (intro zdiv_mono1) simp_all
  moreover have "j div (2::int) ^ 149 \<le> (8388608 * 2 ^ 149) div 2 ^ 149"
    using j(2) by (intro zdiv_mono1) simp_all
  ultimately have "\<bar>j div 2 ^ 149\<bar> \<le> 2 ^ 23" by simp
  moreover have "floor_f32 (round_f32 (k + 2 ^ 148) 0) = Fin (j div 2 ^ 149 * 2 ^ 149)"
    by (simp only: R floor_f32.simps)
  ultimately show ?thesis using that by blast
qed

lemma is_f32_cases:
  assumes "is_f32 (Fin k)"
  obtains (small) "\<bar>k\<bar> < 2 ^ 24"
  | (norm) q t where "\<bar>k\<bar> = q * 2 ^ t" "2 ^ 23 \<le> q" "q < 2 ^ 24" "1 \<le> t" "t \<le> 253"
proof (cases "\<bar>k\<bar> < 2 ^ 24")
  case True
  then show ?thesis by (rule small)
next
  case False
  then have "2 ^ 24 \<le> \<bar>k\<bar>" by simp
  then obtain q r t where d: "\<bar>k\<bar> = q * 2 ^ t + r" "2 ^ 23 \<le> q" "q < 2 ^ 24" "0 \<le> r" "r < 2 ^ t"
    "1 \<le> t" "2 ^ (23 + t) \<le> \<bar>k\<bar>" "\<bar>k\<bar> < 2 ^ (24 + t)"
    by (rule norm_decomp)
  define q' where "q' = (if 2 ^ t < 2 * r \<or> (2 * r = 2 ^ t \<and> odd q) then q + 1 else q)"
  have rm: "round_mag \<bar>k\<bar> 0 = q' * 2 ^ t"
    unfolding d(1) q'_def using d(2-5) by (rule round_mag_qr)
  from assms have fin: "q' * 2 ^ t < 2 ^ 277" and eq: "(if k < 0 then - (q' * 2 ^ t) else q' * 2 ^ t) = k"
    by (simp_all add: round_f32_def Let_def rm split: if_splits)
  have "q' * 2 ^ t = \<bar>k\<bar>" using eq by (simp split: if_splits)
  then have qr: "q' * 2 ^ t = q * 2 ^ t + r" using d(1) by simp
  have r0: "r = 0"
  proof (cases "q' = q")
    case True
    then show ?thesis using qr by simp
  next
    case False
    then have "q' = q + 1" by (simp add: q'_def split: if_splits)
    then have "r = 2 ^ t" using qr by (simp add: algebra_simps)
    then show ?thesis using d(5) by simp
  qed
  have "(2::int) ^ (23 + t) < 2 ^ 277" using d(7) fin qr d(1) by simp
  then have "23 + t < 277" by (rule power_less_imp_less_exp [rotated]) simp
  then have "t \<le> 253" by simp
  then show ?thesis using norm [of q t] d r0 by simp
qed

lemma floor_units0_neg: "floor_f32 (Fin (- (y * 2 ^ 149))) = Fin (- (y * 2 ^ 149))"
  using floor_units0 [of "- y"] by simp

lemma fixed_le_23:
  assumes "\<bar>n\<bar> \<le> 2 ^ 23"
  shows "floor_f32 (round_f32 (n * 2 ^ 149 + 2 ^ 148) 0) = Fin (n * 2 ^ 149)"
proof -
  consider "\<bar>n\<bar> < 2 ^ 23" | "n = 2 ^ 23" | "n = - (2 ^ 23)" using assms by fastforce
  then show ?thesis
  proof cases
    case 1
    then show ?thesis by (rule nearest_small)
  next
    case 2
    show ?thesis using nearest_mid_pos [of "2 ^ 23"] by (simp add: 2)
  next
    case 3
    show ?thesis using nearest_mid_neg_edge by (simp add: 3)
  qed
qed

lemma fixed_even_pos:
  assumes "2 ^ 23 \<le> m" "m \<le> 2 ^ 24" "even m"
  shows "floor_f32 (round_f32 (m * 2 ^ 149 + 2 ^ 148) 0) = Fin (m * 2 ^ 149)"
proof (cases "m = 2 ^ 24")
  case True
  show ?thesis using nearest_big_pos [of "2 ^ 23" 150] by (simp add: True)
next
  case False
  then have "m < 2 ^ 24" using assms(2) by simp
  with assms(1)
  have "round_f32 (m * 2 ^ 149 + 2 ^ 148) 0 = Fin ((if odd m then m + 1 else m) * 2 ^ 149)"
    by (rule nearest_mid_pos)
  moreover have "(if odd m then m + 1 else m) = m" using assms(3) by simp
  ultimately show ?thesis by (simp only: floor_units0)
qed

lemma fixed_even_neg:
  assumes "2 ^ 23 \<le> m" "m < 2 ^ 24" "even m"
  shows "floor_f32 (round_f32 (- (m * 2 ^ 149) + 2 ^ 148) 0) = Fin (- (m * 2 ^ 149))"
proof (cases "m = 2 ^ 23")
  case True
  show ?thesis using nearest_mid_neg_edge by (simp add: True)
next
  case False
  then have "2 ^ 23 < m" using assms(1) by simp
  then have "round_f32 (- (m * 2 ^ 149) + 2 ^ 148) 0 =
      Fin (- ((if odd m then m - 1 else m) * 2 ^ 149))"
    using assms(2) by (rule nearest_mid_neg)
  moreover have "(if odd m then m - 1 else m) = m" using assms(3) by simp
  ultimately show ?thesis by (simp only: floor_units0_neg)
qed

lemma nearest_fixed:
  assumes "is_f32 (Fin k)"
  obtains j where "floor_f32 (round_f32 (k + 2 ^ 148) 0) = Fin (j * 2 ^ 149)"
    "floor_f32 (round_f32 (j * 2 ^ 149 + 2 ^ 148) 0) = Fin (j * 2 ^ 149)"
proof -
  let ?N = "\<lambda>k. floor_f32 (round_f32 (k + 2 ^ 148) 0)"
  have low: thesis if "\<bar>k\<bar> < 2 ^ 172"
  proof -
    from that obtain n where n: "?N k = Fin (n * 2 ^ 149)" "\<bar>n\<bar> \<le> 2 ^ 23"
      by (rule nearest_lt_172)
    from n(2) have "?N (n * 2 ^ 149) = Fin (n * 2 ^ 149)" by (rule fixed_le_23)
    with n(1) show thesis by (rule \<open>\<And>j. _ \<Longrightarrow> _ \<Longrightarrow> thesis\<close>)
  qed
  from assms show thesis
  proof (cases rule: is_f32_cases)
    case small
    then have "\<bar>k\<bar> < 2 ^ 172" by simp
    then show thesis by (rule low)
  next
    case (norm q t)
    consider "150 \<le> t" | "t = 149" | "t \<le> 148" by linarith
    then show thesis
    proof cases
      case 1
      define x where "x = q * 2 ^ (t - 149)"
      have xk: "\<bar>k\<bar> = x * 2 ^ 149"
        unfolding norm(1) x_def using 1 by (subst pow_split [of 149 t]) (simp_all only: mult.assoc)
      show thesis
      proof (cases "0 \<le> k")
        case True
        then have k: "k = q * 2 ^ t" using norm(1) by simp
        have "round_f32 (k + 2 ^ 148) 0 = Fin k"
          unfolding k using norm(2,3) 1 norm(5) by (rule nearest_big_pos)
        moreover have "k = x * 2 ^ 149" using xk True by simp
        ultimately have "?N k = Fin (x * 2 ^ 149)" "?N (x * 2 ^ 149) = Fin (x * 2 ^ 149)"
          by (simp_all only: floor_units0)
        then show thesis by (rule \<open>\<And>j. _ \<Longrightarrow> _ \<Longrightarrow> thesis\<close>)
      next
        case False
        then have k: "k = - (q * 2 ^ t)" using norm(1) by simp
        have "round_f32 (k + 2 ^ 148) 0 = Fin k"
          unfolding k using norm(2,3) 1 norm(5) by (rule nearest_big_neg)
        moreover have "k = (- x) * 2 ^ 149" using xk False by simp
        ultimately have "?N k = Fin ((- x) * 2 ^ 149)"
          "?N ((- x) * 2 ^ 149) = Fin ((- x) * 2 ^ 149)"
          by (simp_all only: floor_units0)
        then show thesis by (rule \<open>\<And>j. _ \<Longrightarrow> _ \<Longrightarrow> thesis\<close>)
      qed
    next
      case 2
      show thesis
      proof (cases "0 \<le> k")
        case True
        then have k: "k = q * 2 ^ 149" using norm(1) 2 by simp
        define q' where "q' = (if odd q then q + 1 else q)"
        have q': "2 ^ 23 \<le> q'" "q' \<le> 2 ^ 24" "even q'" using norm(2,3) by (simp_all add: q'_def)
        have "round_f32 (k + 2 ^ 148) 0 = Fin (q' * 2 ^ 149)"
          unfolding k q'_def using norm(2,3) by (rule nearest_mid_pos)
        then have "?N k = Fin (q' * 2 ^ 149)" by (simp only: floor_units0)
        moreover have "?N (q' * 2 ^ 149) = Fin (q' * 2 ^ 149)" using q' by (rule fixed_even_pos)
        ultimately show thesis by (rule \<open>\<And>j. _ \<Longrightarrow> _ \<Longrightarrow> thesis\<close>)
      next
        case False
        then have k: "k = - (q * 2 ^ 149)" using norm(1) 2 by simp
        show thesis
        proof (cases "q = 2 ^ 23")
          case True
          have "?N k = Fin ((- q) * 2 ^ 149)" "?N ((- q) * 2 ^ 149) = Fin ((- q) * 2 ^ 149)"
            using fixed_even_neg [of q] by (simp_all add: k True)
          then show thesis by (rule \<open>\<And>j. _ \<Longrightarrow> _ \<Longrightarrow> thesis\<close>)
        next
          case False
          then have lt: "2 ^ 23 < q" using norm(2) by simp
          define q' where "q' = (if odd q then q - 1 else q)"
          have q': "2 ^ 23 \<le> q'" "q' < 2 ^ 24" "even q'" using lt norm(3) by (simp_all add: q'_def)
          have "round_f32 (k + 2 ^ 148) 0 = Fin (- (q' * 2 ^ 149))"
            unfolding k q'_def using lt norm(3) by (rule nearest_mid_neg)
          then have "?N k = Fin (- (q' * 2 ^ 149))" by (simp only: floor_units0_neg)
          moreover have "?N (- (q' * 2 ^ 149)) = Fin (- (q' * 2 ^ 149))"
            using q' by (rule fixed_even_neg)
          ultimately have "?N k = Fin ((- q') * 2 ^ 149)"
            "?N ((- q') * 2 ^ 149) = Fin ((- q') * 2 ^ 149)" by simp_all
          then show thesis by (rule \<open>\<And>j. _ \<Longrightarrow> _ \<Longrightarrow> thesis\<close>)
        qed
      qed
    next
      case 3
      have "q * 2 ^ t < 2 ^ 24 * (2::int) ^ t"
        using norm(3) by (intro mult_strict_right_mono) simp_all
      also have "\<dots> = 2 ^ (24 + t)" by (simp add: power_add)
      also have "\<dots> \<le> (2::int) ^ 172" using 3 by (intro power_increasing) simp_all
      finally have "\<bar>k\<bar> < 2 ^ 172" using norm(1) by simp
      then show thesis by (rule low)
    qed
  qed
qed

text \<open>
  Multiplying by \<^verbatim>\<open>0.5f\<close> gives the \<^verbatim>\<open>float\<close> nearest to the exact half, which is what a
  division by 2 gives too.
\<close>

lemma scale_div_mod:
  fixes b :: int
  shows "(b * 2 ^ 148) div 2 ^ (t + 148) = b div 2 ^ t"
    "(b * 2 ^ 148) mod 2 ^ (t + 148) = (b mod 2 ^ t) * 2 ^ 148"
proof -
  have p: "(2::int) ^ (t + 148) = 2 ^ t * 2 ^ 148" by (simp only: power_add)
  show "(b * 2 ^ 148) div 2 ^ (t + 148) = b div 2 ^ t"
    unfolding p by simp
  show "(b * 2 ^ 148) mod 2 ^ (t + 148) = (b mod 2 ^ t) * 2 ^ 148"
    unfolding p by (simp only: mult_mod_left [symmetric]) 
qed

lemma excess_bits_scale:
  assumes "0 \<le> b"
  shows "max 149 (excess_bits (b * 2 ^ 148)) = max 1 (excess_bits b) + 148"
proof (cases "b < 2 ^ 24")
  case True
  then have "excess_bits (b * 2 ^ 148) \<le> 148" using assms by (intro excess_bits_le)
  then show ?thesis using True by (simp add: excess_bits_small)
next
  case False
  then have b: "2 ^ (23 + excess_bits b) \<le> b" "b < 2 ^ (24 + excess_bits b)"
    using excess_bits_bounds [of b] by simp_all
  have lo: "2 ^ (23 + (excess_bits b + 148)) \<le> b * 2 ^ 148"
  proof -
    have "2 ^ (23 + excess_bits b) * 2 ^ 148 \<le> b * (2::int) ^ 148"
      using b(1) by (intro mult_right_mono) simp_all
    then show ?thesis by (simp only: power_add [symmetric] add.assoc)
  qed
  have hi: "b * 2 ^ 148 < 2 ^ (24 + (excess_bits b + 148))"
  proof -
    have "b * (2::int) ^ 148 < 2 ^ (24 + excess_bits b) * 2 ^ 148"
      using b(2) by (intro mult_strict_right_mono) simp_all
    then show ?thesis by (simp only: power_add [symmetric] add.assoc)
  qed
  have "excess_bits (b * 2 ^ 148) = excess_bits b + 148"
    using lo hi by (rule excess_bits_range)
  moreover have "1 \<le> excess_bits b"
  proof (rule ccontr)
    assume "\<not> 1 \<le> excess_bits b"
    then have "excess_bits b = 0" by simp
    with b(2) False show False by simp
  qed
  ultimately show ?thesis by simp
qed

lemma round_mag_half:
  assumes "0 \<le> b"
  shows "round_mag (b * 2 ^ 148) 149 = round_mag b 1"
proof -
  define t where "t = max 1 (excess_bits b)"
  have t1: "1 \<le> t" by (simp add: t_def)
  have T: "max 149 (excess_bits (b * 2 ^ 148)) = t + 148"
    unfolding t_def using assms by (rule excess_bits_scale)
  have c1: "2 ^ (t + 148) < 2 * (b mod 2 ^ t * 2 ^ 148) \<longleftrightarrow> 2 ^ t < 2 * (b mod 2 ^ t)"
    by (simp add: power_add)
  have c2: "2 * (b mod 2 ^ t * 2 ^ 148) = 2 ^ (t + 148) \<longleftrightarrow> 2 * (b mod 2 ^ t) = 2 ^ t"
    by (simp add: power_add)
  have e: "t + 148 - 149 = t - 1" using t1 by simp
  show ?thesis
    unfolding round_mag_def Let_def T t_def [symmetric] scale_div_mod c1 c2 e ..
qed

lemma fmul_half: "fmul (Fin a) f32_half = round_f32 a 1"
proof -
  have "\<bar>a * 2 ^ 148\<bar> = \<bar>a\<bar> * 2 ^ 148" by (simp add: abs_mult)
  then have m: "round_mag \<bar>a * 2 ^ 148\<bar> 149 = round_mag \<bar>a\<bar> 1"
    using round_mag_half [of "\<bar>a\<bar>"] by simp
  have neg: "a * 2 ^ 148 < 0 \<longleftrightarrow> a < 0" by (simp add: mult_less_0_iff)
  show ?thesis
    unfolding f32_half_def fmul.simps round_f32_def m neg ..
qed

text \<open>
  The operations stay within the values of the format: what rounding returns is a
  \<^verbatim>\<open>float\<close>, and so are the floor and the ceiling of a \<^verbatim>\<open>float\<close>.
\<close>

lemma round_mag_closed:
  assumes "0 \<le> a"
  shows "0 \<le> round_mag a s" "round_mag (round_mag a s) 0 = round_mag a s"
proof -
  define t where "t = max s (excess_bits a)"
  define q where "q = a div 2 ^ t"
  define q' where "q' = (if 2 ^ t < 2 * (a mod 2 ^ t) \<or> (2 * (a mod 2 ^ t) = 2 ^ t \<and> odd q)
                        then q + 1 else q)"
  have m: "round_mag a s = q' * 2 ^ (t - s)"
    by (simp add: round_mag_def Let_def t_def q_def q'_def)
  have q0: "0 \<le> q" unfolding q_def using assms by (simp add: pos_imp_zdiv_nonneg_iff)
  have "a < 2 ^ 24 * 2 ^ t"
  proof (cases "a < 2 ^ 24")
    case True
    have "(1::int) \<le> 2 ^ t" by simp
    then have "(16777216::int) \<le> 16777216 * 2 ^ t" by linarith
    moreover from True have "a < 16777216" by simp
    ultimately have "a < 16777216 * 2 ^ t" by linarith
    then show ?thesis by simp
  next
    case False
    then have "a < 2 ^ (24 + excess_bits a)" using excess_bits_bounds [of a] by simp
    also have "\<dots> \<le> (2::int) ^ (24 + t)" by (intro power_increasing) (simp_all add: t_def)
    finally show ?thesis by (simp add: power_add)
  qed
  then have ub: "a < 16777216 * 2 ^ t" by simp
  have dm: "a = q * 2 ^ t + a mod 2 ^ t"
    unfolding q_def by (rule div_mult_mod_eq [symmetric])
  have "q < 2 ^ 24"
  proof (rule ccontr)
    assume "\<not> q < 2 ^ 24"
    then have "16777216 \<le> q" by simp
    then have "16777216 * 2 ^ t \<le> q * (2::int) ^ t" by (intro mult_right_mono) simp_all
    moreover have "0 \<le> a mod 2 ^ t" by simp
    ultimately have "16777216 * 2 ^ t \<le> a" using dm by linarith
    with ub show False by simp
  qed
  with q0 have q': "0 \<le> q'" "q' \<le> 2 ^ 24" by (simp_all add: q'_def)
  show "0 \<le> round_mag a s" unfolding m using q'(1) by simp
  show "round_mag (round_mag a s) 0 = round_mag a s"
  proof (cases "q' = 2 ^ 24")
    case True
    have "round_mag (2 ^ 23 * 2 ^ Suc (t - s)) 0 = 2 ^ 23 * 2 ^ (Suc (t - s) - 0)"
      by (rule round_mag_exact_s) simp_all
    then show ?thesis unfolding m True by simp
  next
    case False
    then have "q' < 2 ^ 24" using q'(2) by simp
    with q'(1) have "round_mag (q' * 2 ^ (t - s)) 0 = q' * 2 ^ (t - s - 0)"
      by (intro round_mag_exact_s) simp_all
    then show ?thesis unfolding m by simp
  qed
qed

lemma is_f32_round: "is_f32 (round_f32 n s)"
proof -
  define m where "m = round_mag \<bar>n\<bar> s"
  have m: "0 \<le> m" "round_mag m 0 = m"
    unfolding m_def by (rule round_mag_closed, simp)+
  show ?thesis
  proof (cases "2 ^ 277 \<le> m")
    case True
    then show ?thesis by (simp add: round_f32_def m_def [symmetric])
  next
    case False
    then have "round_f32 m 0 = Fin m" "round_f32 (- m) 0 = Fin (- m)"
      using m by (simp_all add: round_f32_def)
    then show ?thesis using False by (simp add: round_f32_def [of n] m_def [symmetric])
  qed
qed

lemma is_f32_fadd: "is_f32 (fadd x y)"
  by (cases x; cases y) (simp_all add: is_f32_round)

lemma is_f32_fsub: "is_f32 (fsub x y)"
  unfolding fsub_def by (rule is_f32_fadd)

lemma is_f32_fmul: "is_f32 (fmul x y)"
  by (cases x; cases y) (simp_all add: is_f32_round)

lemma is_f32_whole: "\<bar>n\<bar> \<le> 2 ^ 23 \<Longrightarrow> is_f32 (Fin (n * 2 ^ 149))"
  unfolding is_f32.simps by (rule round_f32_exact) simp_all

lemma ceil_units0: "ceil_f32 (Fin (y * 2 ^ 149)) = Fin (y * 2 ^ 149)"
proof -
  have "((- y) * 2 ^ 149) div (2::int) ^ 149 = - y"
    by (rule nonzero_mult_div_cancel_right) simp
  then have "(- (y * 2 ^ 149)) div (2::int) ^ 149 = - y" by simp
  then show ?thesis by (simp only: ceil_f32.simps) simp
qed

lemma whole_lt_172:
  fixes k :: int
  assumes "\<bar>k\<bar> < 2 ^ 172"
  shows "\<bar>k div 2 ^ 149\<bar> \<le> 2 ^ 23" "\<bar>- ((- k) div 2 ^ 149)\<bar> \<le> 2 ^ 23"
proof -
  have k: "- (8388608 * 2 ^ 149) \<le> k" "k \<le> 8388608 * 2 ^ 149"
    "- (8388608 * 2 ^ 149) \<le> - k" "- k \<le> 8388608 * 2 ^ 149"
    using assms by simp_all
  have "(- (8388608 * 2 ^ 149)) div 2 ^ 149 \<le> k div (2::int) ^ 149"
    using k(1) by (intro zdiv_mono1) simp_all
  moreover have "k div (2::int) ^ 149 \<le> (8388608 * 2 ^ 149) div 2 ^ 149"
    using k(2) by (intro zdiv_mono1) simp_all
  ultimately show "\<bar>k div 2 ^ 149\<bar> \<le> 2 ^ 23" by simp
  have "(- (8388608 * 2 ^ 149)) div 2 ^ 149 \<le> (- k) div (2::int) ^ 149"
    using k(3) by (intro zdiv_mono1) simp_all
  moreover have "(- k) div (2::int) ^ 149 \<le> (8388608 * 2 ^ 149) div 2 ^ 149"
    using k(4) by (intro zdiv_mono1) simp_all
  ultimately show "\<bar>- ((- k) div 2 ^ 149)\<bar> \<le> 2 ^ 23" by simp
qed

lemma is_f32_floor_ceil:
  assumes "is_f32 x"
  shows "is_f32 (floor_f32 x)" "is_f32 (ceil_f32 x)"
proof -
  have "is_f32 (floor_f32 x) \<and> is_f32 (ceil_f32 x)"
  proof (cases x)
    case (Fin k)
    have low: ?thesis if "\<bar>k\<bar> < 2 ^ 172"
    proof -
      have "is_f32 (Fin (k div 2 ^ 149 * 2 ^ 149))"
        using whole_lt_172(1) [OF that] by (rule is_f32_whole)
      moreover have "is_f32 (Fin (- ((- k) div 2 ^ 149) * 2 ^ 149))"
        using whole_lt_172(2) [OF that] by (rule is_f32_whole)
      ultimately show ?thesis by (simp only: Fin floor_f32.simps ceil_f32.simps simp_thms)
    qed
    from assms [unfolded Fin] show ?thesis
    proof (cases rule: is_f32_cases)
      case small
      then have "\<bar>k\<bar> < 2 ^ 172" by simp
      then show ?thesis by (rule low)
    next
      case (norm q t)
      show ?thesis
      proof (cases "149 \<le> t")
        case True
        define y where "y = (if k < 0 then - q else q) * 2 ^ (t - 149)"
        have "\<bar>k\<bar> = (q * 2 ^ (t - 149)) * 2 ^ 149"
          unfolding norm(1) using True by (subst pow_split [of 149 t]) (simp_all only: mult.assoc)
        then have "k = y * 2 ^ 149" by (auto simp: y_def abs_if split: if_splits)
        then show ?thesis
          using assms by (simp only: Fin floor_units0 ceil_units0)
      next
        case False
        then have t148: "t \<le> 148" by simp
        have "q * 2 ^ t < 2 ^ 24 * (2::int) ^ t"
          using norm(3) by (intro mult_strict_right_mono) simp_all
        also have "\<dots> = 2 ^ (24 + t)" by (simp add: power_add)
        also have "\<dots> \<le> (2::int) ^ 172" using t148 by (intro power_increasing) simp_all
        finally have "\<bar>k\<bar> < 2 ^ 172" using norm(1) by simp
        then show ?thesis by (rule low)
      qed
    qed
  qed simp_all
  then show "is_f32 (floor_f32 x)" "is_f32 (ceil_f32 x)" by simp_all
qed

lemma fadd_half: "fadd (Fin k) f32_half = round_f32 (k + 2 ^ 148) 0"
  unfolding f32_half_def by (rule fadd.simps(1))

lemma nearest_idem:
  assumes "is_f32 x"
  shows "floor_f32 (fadd (floor_f32 (fadd x f32_half)) f32_half) = floor_f32 (fadd x f32_half)"
proof (cases x)
  case (Fin k)
  with assms obtain j where
    "floor_f32 (round_f32 (k + 2 ^ 148) 0) = Fin (j * 2 ^ 149)"
    "floor_f32 (round_f32 (j * 2 ^ 149 + 2 ^ 148) 0) = Fin (j * 2 ^ 149)"
    using nearest_fixed [of k] by blast
  then show ?thesis by (simp only: Fin fadd_half)
qed (simp_all add: f32_half_def)

lemma nearest_integral:
  assumes "is_f32 (Fin k)"
  shows "is_integral (floor_f32 (fadd (Fin k) f32_half))"
proof -
  from assms obtain j where "floor_f32 (round_f32 (k + 2 ^ 148) 0) = Fin (j * 2 ^ 149)"
    using nearest_fixed [of k] by blast
  then show ?thesis by (simp only: fadd_half) simp
qed

lemma floor_idem: "floor_f32 (floor_f32 x) = floor_f32 x"
  by (cases x) simp_all

lemma ceil_idem: "ceil_f32 (ceil_f32 x) = ceil_f32 x"
  by (cases x) simp_all

lemma floor_ceil_integral: "is_integral (floor_f32 (Fin k))" "is_integral (ceil_f32 (Fin k))"
  by simp_all

lemma nearest_tie:
  assumes "\<bar>2 * n + 1\<bar> < 2 ^ 24"
  shows "floor_f32 (fadd (Fin (n * 2 ^ 149 + 2 ^ 148)) f32_half) = Fin ((n + 1) * 2 ^ 149)"
proof -
  have e: "n * 2 ^ 149 + 2 ^ 148 + 2 ^ 148 = (n + 1) * (2::int) ^ 149" by (simp add: algebra_simps)
  have "\<bar>n + 1\<bar> < 2 ^ 24" using assms by simp
  then have "round_f32 ((n + 1) * 2 ^ 149) 0 = Fin ((n + 1) * 2 ^ 149)"
    by (rule round_f32_exact) simp
  then show ?thesis by (simp only: fadd_half e floor_units0)
qed

lemma is_f32_3_4: "is_f32 f32_3_4"
  unfolding f32_3_4_def is_f32.simps by (rule round_f32_exact) simp_all

lemma is_f32_3_6: "is_f32 f32_3_6"
  unfolding f32_3_6_def is_f32.simps by (rule round_f32_exact) simp_all

lemma is_f32_of_int: "\<bar>n\<bar> < 2 ^ 24 \<Longrightarrow> is_f32 (f32_of_int n)"
  unfolding f32_of_int_small is_f32.simps by (rule round_f32_exact) simp_all

text \<open>The values of the examples of the spec.\<close>

lemma example_align_x: "fsub (f32_of_int 100) (fmul (f32_of_int 20) f32_half) = f32_of_int 90"
proof -
  have "fmul (f32_of_int 20) f32_half = Fin (10 * 2 ^ 149)"
    using round_f32_exact_s [of 20 149 297] by (simp add: f32_of_int_small f32_half_def)
  then show ?thesis
    using round_f32_exact [of 90 149] by (simp add: f32_of_int_small fsub_def)
qed

lemma example_align_y: "fsub (f32_of_int 50) (f32_of_int 10) = f32_of_int 40"
  using round_f32_exact [of 40 149] by (simp add: f32_of_int_small fsub_def)

lemma example_nearest_x: "floor_f32 (fadd f32_3_4 f32_half) = f32_of_int 3"
  using round_f32_exact [of 16357786 127]
  by (simp add: f32_of_int_small f32_3_4_def f32_half_def)

lemma example_nearest_y: "floor_f32 (fadd f32_3_6 f32_half) = f32_of_int 4"
  using round_f32_exact [of 8598323 128]
  by (simp add: f32_of_int_small f32_3_6_def f32_half_def)

lemma example_down: "floor_f32 f32_3_4 = f32_of_int 3" "floor_f32 f32_3_6 = f32_of_int 3"
  by (simp_all add: f32_of_int_small f32_3_4_def f32_3_6_def)

lemma example_up: "ceil_f32 f32_3_4 = f32_of_int 4" "ceil_f32 f32_3_6 = f32_of_int 4"
  by (simp_all add: f32_of_int_small f32_3_4_def f32_3_6_def)


text \<open>
  The addition of \<^verbatim>\<open>0.5f\<close> rounds. From \<open>2\<^sup>2\<^sup>3\<close> on, where every \<^verbatim>\<open>float\<close> is a whole number, the
  sum with a half is a tie and goes to the even neighbour, so Nearest takes 8388609 to
  8388610; and the largest \<^verbatim>\<open>float\<close> below a half, \<open>16777215 \<cdot> 2\<^sup>-\<^sup>2\<^sup>5\<close>, goes to 1.
\<close>

lemma nearest_odd_whole:
  "floor_f32 (fadd (f32_of_int 8388609) f32_half) = f32_of_int 8388610"
proof -
  have "round_f32 (8388609 * 2 ^ 149 + 2 ^ 148) 0 = Fin (8388610 * 2 ^ 149)"
    using nearest_mid_pos [of 8388609] by simp
  then have "floor_f32 (fadd (Fin (8388609 * 2 ^ 149)) f32_half) = Fin (8388610 * 2 ^ 149)"
    by (simp only: fadd_half floor_units0)
  then show ?thesis by (simp add: f32_of_int_small)
qed

lemma nearest_below_half:
  "floor_f32 (fadd (Fin (16777215 * 2 ^ 124)) f32_half) = f32_of_int 1"
proof -
  have "round_mag (16777215 * 2 ^ 125 + 2 ^ 124) 0 = 2 ^ 149"
    by (subst round_mag_qr) simp_all
  then have "round_f32 (16777215 * 2 ^ 124 + 2 ^ 148) 0 = Fin (2 ^ 149)"
    by (intro round_f32_nonneg) simp_all
  then show ?thesis
    by (simp only: fadd_half) (simp add: f32_of_int_small)
qed

text \<open>
  Nearest against the exact formula. The sum with \<^verbatim>\<open>0.5f\<close> is exact, or rounds without passing
  a whole number, for every \<^verbatim>\<open>float\<close> but the two kinds above: the largest \<^verbatim>\<open>float\<close> below a
  half, and the odd whole numbers between \<open>2\<^sup>2\<^sup>3\<close> and \<open>2\<^sup>2\<^sup>4\<close> in magnitude. There the result is
  one more than \<open>floor(v + 0.5)\<close>.
\<close>

lemma div_between:
  fixes U :: int
  assumes "0 < U" "a = n * U" "a \<le> x" "x < a + U"
  shows "x div U = n"
proof -
  have "(n * U + (x - a)) div U = n + (x - a) div U" using assms(1) by simp
  moreover have "n * U + (x - a) = x" using assms(2) by simp
  moreover have "(x - a) div U = 0" using assms(3,4) by (simp add: div_pos_pos_trivial)
  ultimately show ?thesis by simp
qed

lemma round_mag_le_pow:
  assumes "0 \<le> a" "a \<le> 2 ^ j"
  shows "round_mag a 0 \<le> 2 ^ j"
proof (cases "a < 2 ^ 24")
  case True
  then show ?thesis using assms(2) by (simp add: round_mag_small)
next
  case False
  then have "2 ^ 24 \<le> a" by simp
  then obtain q r t where d: "a = q * 2 ^ t + r" "2 ^ 23 \<le> q" "q < 2 ^ 24" "0 \<le> r" "r < 2 ^ t"
    "1 \<le> t" "2 ^ (23 + t) \<le> a" "a < 2 ^ (24 + t)"
    by (rule norm_decomp)
  have rm: "round_mag a 0 = (if 2 ^ t < 2 * r \<or> (2 * r = 2 ^ t \<and> odd q) then q + 1 else q) * 2 ^ t"
    unfolding d(1) using d(2-5) by (rule round_mag_qr)
  have "(2::int) ^ (23 + t) \<le> 2 ^ j" using d(7) assms(2) by linarith
  then have le: "23 + t \<le> j" by (rule power_le_imp_le_exp [rotated]) simp
  show ?thesis
  proof (cases "24 + t \<le> j")
    case True
    have "(if 2 ^ t < 2 * r \<or> (2 * r = 2 ^ t \<and> odd q) then q + 1 else q) \<le> 2 ^ 24"
      using d(3) by simp
    then have "round_mag a 0 \<le> 2 ^ 24 * 2 ^ t"
      unfolding rm by (intro mult_right_mono) simp_all
    also have "\<dots> = 2 ^ (24 + t)" by (simp add: power_add)
    also have "\<dots> \<le> (2::int) ^ j" using True by (intro power_increasing) simp_all
    finally show ?thesis .
  next
    case False
    then have j: "j = 23 + t" using le by simp
    have "a = 2 ^ (23 + t)" using d(7) assms(2) unfolding j by linarith
    then have a: "a = 2 ^ 23 * 2 ^ t" by (simp add: power_add)
    have "round_mag (2 ^ 23 * 2 ^ t) 0 = 2 ^ 23 * 2 ^ (t - 0)"
      by (rule round_mag_exact_s) simp_all
    then have "round_mag a 0 = a" by (simp add: a)
    then show ?thesis using assms(2) by simp
  qed
qed

lemma nearest_exact_sum:
  assumes "round_f32 (k + 2 ^ 148) 0 = Fin (k + 2 ^ 148)"
  shows "floor_f32 (round_f32 (k + 2 ^ 148) 0) = Fin ((k + 2 ^ 148) div 2 ^ 149 * 2 ^ 149)"
  by (simp only: assms floor_f32.simps)

lemma sum_exact_neg:
  assumes "0 \<le> q" "q < 2 ^ 24" "t \<le> 148" "2 ^ 148 \<le> q * 2 ^ t"
  shows "round_f32 (- (q * 2 ^ t) + 2 ^ 148) 0 = Fin (- (q * 2 ^ t) + 2 ^ 148)"
proof -
  define c :: int where "c = 2 ^ (148 - t)"
  have H: "(2::int) ^ 148 = c * 2 ^ t" unfolding c_def using assms(3) by (rule pow_split)
  have "c * 2 ^ t \<le> q * 2 ^ t" using assms(4) unfolding H .
  then have cq: "c \<le> q" by simp
  have c0: "0 < c" by (simp add: c_def)
  have e: "- (q * 2 ^ t) + 2 ^ 148 = (- (q - c)) * 2 ^ t"
    unfolding H by (simp add: algebra_simps)
  have "\<bar>- (q - c)\<bar> < 2 ^ 24" using cq c0 assms(2) by simp
  then have "round_f32 ((- (q - c)) * 2 ^ t) 0 = Fin ((- (q - c)) * 2 ^ t)"
    using assms(3) by (intro round_f32_exact) simp_all
  then show ?thesis by (simp only: e)
qed

lemma nearest_pos_le_148:
  assumes "2 ^ 23 \<le> q" "q < 2 ^ 24" "t \<le> 148" "2 ^ 148 \<le> q * 2 ^ t"
  shows "floor_f32 (round_f32 (q * 2 ^ t + 2 ^ 148) 0) =
           Fin ((q * 2 ^ t + 2 ^ 148) div 2 ^ 149 * 2 ^ 149)"
proof -
  define c :: int where "c = 2 ^ (148 - t)"
  define P :: int where "P = 2 ^ t"
  have P0: "0 < P" by (simp add: P_def)
  have H: "(2::int) ^ 148 = c * P" unfolding c_def P_def using assms(3) by (rule pow_split)
  have c0: "0 < c" by (simp add: c_def)
  have e: "q * 2 ^ t + 2 ^ 148 = (q + c) * 2 ^ t"
    unfolding H by (simp add: algebra_simps P_def)
  consider "q + c < 2 ^ 24" | "q + c = 2 ^ 24" | "2 ^ 24 < q + c" by linarith
  then show ?thesis
  proof cases
    case 1
    then have "\<bar>q + c\<bar> < 2 ^ 24" using assms(1) c0 by simp
    then have "round_f32 ((q + c) * 2 ^ t) 0 = Fin ((q + c) * 2 ^ t)"
      using assms(3) by (intro round_f32_exact) simp_all
    then have "round_f32 (q * 2 ^ t + 2 ^ 148) 0 = Fin (q * 2 ^ t + 2 ^ 148)"
      by (simp only: e)
    then show ?thesis by (rule nearest_exact_sum)
  next
    case 2
    have "round_f32 (2 ^ 23 * 2 ^ Suc t) 0 = Fin (2 ^ 23 * 2 ^ Suc t)"
      using assms(3) by (intro round_f32_exact) simp_all
    moreover have "(2::int) ^ 23 * 2 ^ Suc t = (q + c) * 2 ^ t" by (simp add: 2)
    ultimately have "round_f32 (q * 2 ^ t + 2 ^ 148) 0 = Fin (q * 2 ^ t + 2 ^ 148)"
      by (simp only: e)
    then show ?thesis by (rule nearest_exact_sum)
  next
    case 3
    have "q * P < 2 ^ 24 * P"
      using assms(2) P0 by (intro mult_strict_right_mono) simp_all
    also have "\<dots> = 2 ^ (24 + t)" by (simp add: power_add P_def)
    finally have "(2::int) ^ 148 < 2 ^ (24 + t)" using assms(4) by (simp add: P_def)
    then have "148 < 24 + t" by (rule power_less_imp_less_exp [rotated]) simp
    then have t125: "125 \<le> t" by simp
    have "148 - t \<le> 23" using t125 by simp
    then have "(2::int) ^ (148 - t) \<le> 2 ^ 23" by (intro power_increasing) simp_all
    then have c23: "c \<le> 2 ^ 23" by (simp add: c_def)
    have c2: "2 \<le> c"
    proof (rule ccontr)
      assume "\<not> 2 \<le> c"
      then have "c = 1" using c0 by simp
      with 3 assms(2) show False by simp
    qed
    define Q where "Q = q + c"
    define Qh where "Qh = Q div 2"
    define b where "b = Q mod 2"
    have Q: "Q = Qh * 2 + b" by (simp add: Qh_def b_def)
    have b: "0 \<le> b" "b \<le> 1" by (simp_all add: b_def)
    have Qlo: "2 ^ 24 < Q" using 3 by (simp add: Q_def)
    have Qhi: "Q < 2 ^ 24 + c" using assms(2) by (simp add: Q_def)
    have Qh1: "2 ^ 23 \<le> Qh" using Qlo by (simp add: Qh_def)
    have Qh2: "Qh < 2 ^ 24" using Qhi c23 by (simp add: Qh_def)
    have r: "0 \<le> b * P" "b * P < 2 ^ Suc t"
    proof -
      show "0 \<le> b * P" using b(1) P0 by simp
      have "b * P \<le> 1 * P" using b(2) P0 by (intro mult_right_mono) simp_all
      then show "b * P < 2 ^ Suc t" using P0 by (simp add: P_def)
    qed
    define q' where "q' = (if 2 ^ Suc t < 2 * (b * P) \<or> (2 * (b * P) = 2 ^ Suc t \<and> odd Qh)
                           then Qh + 1 else Qh)"
    have rm: "round_mag (Qh * 2 ^ Suc t + b * P) 0 = q' * 2 ^ Suc t"
      unfolding q'_def using Qh1 Qh2 r by (rule round_mag_qr)
    have y: "q * 2 ^ t + 2 ^ 148 = Qh * 2 ^ Suc t + b * P"
      unfolding e Q_def [symmetric] by (simp add: Q P_def algebra_simps)
    have yQ: "q * 2 ^ t + 2 ^ 148 = Q * P"
      unfolding e Q_def [symmetric] by (simp add: P_def)
    define M where "M = 2 * q'"
    have m: "q' * 2 ^ Suc t = M * P" by (simp add: M_def P_def)
    have q'b: "Qh \<le> q'" "q' \<le> Qh + 1" by (simp_all add: q'_def)
    have M1: "2 ^ 24 \<le> M" using q'b(1) Qh1 by (simp add: M_def)
    have "M \<le> Q + 2" using q'b(2) Q b by (simp add: M_def)
    then have M2: "M < 2 ^ 24 + 2 * c" using Qhi c2 by simp
    have Q2: "Q < 2 ^ 24 + 2 * c" using Qhi c0 by simp
    define U :: int where "U = 2 ^ 149"
    have "U = 2 * (2::int) ^ 148" by (simp add: U_def)
    also have "\<dots> = 2 * (c * P)" by (simp only: H)
    finally have U: "U = 2 * c * P" by simp
    define a where "a = 2 ^ 24 * P"
    define n0 :: int where "n0 = 2 ^ (24 + t - 149)"
    have "(2::int) ^ (24 + t) = 2 ^ (24 + t - 149) * 2 ^ 149"
      using t125 by (intro pow_split) simp
    moreover have "(2::int) ^ 24 * 2 ^ t = 2 ^ (24 + t)" by (simp only: power_add)
    ultimately have an: "a = n0 * U"
      by (simp only: a_def n0_def U_def P_def)
    have aU: "(2 ^ 24 + 2 * c) * P = a + U" by (simp add: a_def U algebra_simps)
    have U0: "0 < U" by (simp add: U_def)
    have mlo: "a \<le> M * P" unfolding a_def using M1 P0 by (intro mult_right_mono) simp_all
    have "M * P < (2 ^ 24 + 2 * c) * P" using M2 P0 by (intro mult_strict_right_mono) simp_all
    then have mhi: "M * P < a + U" by (simp only: aU)
    have ylo: "a \<le> Q * P" unfolding a_def using Qlo P0 by (intro mult_right_mono) simp_all
    have "Q * P < (2 ^ 24 + 2 * c) * P" using Q2 P0 by (intro mult_strict_right_mono) simp_all
    then have yhi: "Q * P < a + U" by (simp only: aU)
    have dm: "(M * P) div U = n0" using U0 an mlo mhi by (rule div_between)
    have dy: "(Q * P) div U = n0" using U0 an ylo yhi by (rule div_between)
    have "a \<le> 2 ^ 24 * 2 ^ 148" unfolding a_def P_def using assms(3)
      by (intro mult_left_mono power_increasing) simp_all
    then have "M * P < 2 ^ 277" using mhi by (simp add: U_def)
    moreover have "0 \<le> q * 2 ^ t + (2::int) ^ 148" using assms(1) by simp
    moreover have "round_mag (q * 2 ^ t + 2 ^ 148) 0 = M * P" by (simp only: y rm m)
    ultimately have R: "round_f32 (q * 2 ^ t + 2 ^ 148) 0 = Fin (M * P)"
      by (intro round_f32_nonneg)
    have R': "round_f32 (Q * P) 0 = Fin (M * P)" using R by (simp only: yQ)
    have "floor_f32 (Fin (M * P)) = Fin ((M * P) div U * U)" by (simp add: U_def)
    also have "\<dots> = Fin ((Q * P) div U * U)" by (simp only: dm dy)
    finally show ?thesis by (simp only: yQ R' U_def)
  qed
qed

lemma f32_below_half:
  assumes "is_f32 (Fin k)" "16777215 * 2 ^ 124 \<le> k" "k < 2 ^ 148"
  shows "k = 16777215 * 2 ^ 124"
using assms(1)
proof (cases rule: is_f32_cases)
  case small
  with assms(2) show ?thesis by simp
next
  case (norm q t)
  have k: "k = q * 2 ^ t" using norm(1) assms(2) by simp
  have A: "8388608 * 2 ^ t \<le> q * (2::int) ^ t" using norm(2) by (intro mult_right_mono) simp_all
  have B: "(2::int) ^ (23 + t) = 8388608 * 2 ^ t" by (simp add: power_add)
  have "(2::int) ^ (23 + t) < 2 ^ 148" unfolding B using A assms(3) k by linarith
  then have "23 + t < 148" by (rule power_less_imp_less_exp [rotated]) simp
  then have t1: "t \<le> 124" by simp
  have C: "q * 2 ^ t < 16777216 * (2::int) ^ t"
    using norm(3) by (intro mult_strict_right_mono) simp_all
  have D: "(2::int) ^ (24 + t) = 16777216 * 2 ^ t" by (simp add: power_add)
  have S: "(2::int) ^ 147 \<le> 16777215 * 2 ^ 124" by simp
  have "(2::int) ^ 147 < 2 ^ (24 + t)" unfolding D using C S assms(2) k by linarith
  then have "147 < 24 + t" by (rule power_less_imp_less_exp [rotated]) simp
  then have t: "t = 124" using t1 by simp
  have "16777215 \<le> q" using assms(2) unfolding k t by simp
  then have "q = 16777215" using norm(3) by simp
  then show ?thesis by (simp add: k t)
qed

lemma nearest_near_zero:
  assumes "is_f32 (Fin k)" "- (2 ^ 148) < k" "k < 2 ^ 148" "k \<noteq> 16777215 * 2 ^ 124"
  shows "floor_f32 (round_f32 (k + 2 ^ 148) 0) = Fin ((k + 2 ^ 148) div 2 ^ 149 * 2 ^ 149)"
proof -
  define y where "y = k + 2 ^ 148"
  have y: "0 < y" "y < 2 ^ 149" using assms(2,3) by (simp_all add: y_def)
  have dy: "y div 2 ^ 149 = 0" using y by (simp add: div_pos_pos_trivial)
  define m where "m = round_mag y 0"
  have m0: "0 \<le> m" unfolding m_def using y(1) by (intro round_mag_nonneg) simp
  have m1: "m < 2 ^ 149"
  proof (cases "y \<le> 2 ^ 148")
    case True
    have "round_mag y 0 \<le> 2 ^ 148" using y(1) True by (intro round_mag_le_pow) simp_all
    then show ?thesis by (simp add: m_def)
  next
    case False
    then have ylo: "2 ^ 148 < y" by simp
    define Q where "Q = y div 2 ^ 125"
    define r where "r = y mod 2 ^ 125"
    have yQ: "y = Q * 2 ^ 125 + r" by (simp add: Q_def r_def)
    have r: "0 \<le> r" "r < 2 ^ 125" by (simp_all add: r_def)
    have "(2 ^ 148) div 2 ^ 125 \<le> y div (2::int) ^ 125" using ylo by (intro zdiv_mono1) simp_all
    then have Q1: "2 ^ 23 \<le> Q" by (simp add: Q_def)
    have "y div (2::int) ^ 125 \<le> (2 ^ 149 - 1) div 2 ^ 125" using y(2) by (intro zdiv_mono1) simp_all
    then have Q2: "Q < 2 ^ 24" by (simp add: Q_def)
    define q' where "q' = (if 2 ^ 125 < 2 * r \<or> (2 * r = 2 ^ 125 \<and> odd Q) then Q + 1 else Q)"
    have rm: "m = q' * 2 ^ 125"
      unfolding m_def q'_def by (subst yQ) (rule round_mag_qr [OF Q1 Q2 r])
    show ?thesis
    proof (rule ccontr)
      assume "\<not> m < 2 ^ 149"
      then have "2 ^ 24 \<le> q'" by (simp add: rm)
      then have up: "q' = Q + 1" and Q: "Q = 16777215" using Q2 by (simp_all add: q'_def split: if_splits)
      from up have "2 ^ 124 \<le> r" by (auto simp: q'_def split: if_splits)
      then have "16777215 * 2 ^ 124 \<le> k" using yQ by (simp add: Q y_def)
      with assms(1) have "k = 16777215 * 2 ^ 124" using assms(3) by (rule f32_below_half)
      with assms(4) show False by simp
    qed
  qed
  have F: "round_f32 y 0 = Fin m"
    using y(1) m1 by (intro round_f32_nonneg) (simp_all add: m_def)
  have dm: "m div 2 ^ 149 = 0" using m0 m1 by (simp add: div_pos_pos_trivial)
  have "floor_f32 (round_f32 y 0) = Fin (m div 2 ^ 149 * 2 ^ 149)"
    by (simp only: F floor_f32.simps)
  then have "floor_f32 (round_f32 y 0) = Fin (y div 2 ^ 149 * 2 ^ 149)"
    by (simp only: dm dy)
  then show ?thesis by (simp only: y_def)
qed

lemma nearest_vs_exact:
  assumes "is_f32 (Fin k)"
  shows "floor_f32 (round_f32 (k + 2 ^ 148) 0) =
           Fin (((k + 2 ^ 148) div 2 ^ 149 +
                 (if k = 16777215 * 2 ^ 124
                     \<or> (2 ^ 23 * 2 ^ 149 < \<bar>k\<bar> \<and> \<bar>k\<bar> < 2 ^ 24 * 2 ^ 149 \<and> odd (k div 2 ^ 149))
                  then 1 else 0)) * 2 ^ 149)"
proof (cases "k = 16777215 * 2 ^ 124")
  case True
  have "floor_f32 (round_f32 (16777215 * 2 ^ 124 + 2 ^ 148) 0) = Fin (2 ^ 149)"
    using nearest_below_half by (simp only: fadd_half f32_of_int_1)
  moreover have "(16777215 * 2 ^ 124 + 2 ^ 148) div (2::int) ^ 149 = 0" by simp
  ultimately show ?thesis by (simp add: True)
next
  case nS: False
  let ?N = "floor_f32 (round_f32 (k + 2 ^ 148) 0)"
  let ?mid = "2 ^ 23 * 2 ^ 149 < \<bar>k\<bar> \<and> \<bar>k\<bar> < 2 ^ 24 * 2 ^ 149 \<and> odd (k div 2 ^ 149)"
  have reg: "?N = Fin ((k + 2 ^ 148) div 2 ^ 149 * 2 ^ 149) \<Longrightarrow> \<not> ?mid \<Longrightarrow> ?thesis"
    using nS by simp
  from assms show ?thesis
  proof (cases rule: is_f32_cases)
    case small
    then have b: "- (2 ^ 148) < k" "k < 2 ^ 148" by simp_all
    have "?N = Fin ((k + 2 ^ 148) div 2 ^ 149 * 2 ^ 149)"
      using assms b nS by (rule nearest_near_zero)
    moreover have "\<not> ?mid" using small by simp
    ultimately show ?thesis by (rule reg)
  next
    case (norm q t)
    consider "150 \<le> t" | "t = 149" | "t \<le> 148" by linarith
    then show ?thesis
    proof cases
      case 1
      define x where "x = q * 2 ^ (t - 149)"
      have xk: "\<bar>k\<bar> = x * 2 ^ 149"
        unfolding norm(1) x_def using 1 by (subst pow_split [of 149 t]) (simp_all only: mult.assoc)
      have "(2::int) ^ 1 \<le> 2 ^ (t - 149)" using 1 by (intro power_increasing) simp_all
      then have "2 ^ 23 * 2 \<le> q * (2::int) ^ (t - 149)"
        using norm(2) by (intro mult_mono) simp_all
      then have x24: "2 ^ 24 \<le> x" by (simp add: x_def)
      then have "2 ^ 24 * 2 ^ 149 \<le> x * (2::int) ^ 149" by (intro mult_right_mono) simp_all
      then have nm: "\<not> ?mid" unfolding xk by linarith
      have dx: "(y * 2 ^ 149 + 2 ^ 148) div (2::int) ^ 149 = y" for y by simp
      show ?thesis
      proof (cases "0 \<le> k")
        case True
        then have k: "k = q * 2 ^ t" using norm(1) by simp
        have kx: "k = x * 2 ^ 149" using xk True by simp
        have "round_f32 (k + 2 ^ 148) 0 = Fin k"
          unfolding k using norm(2,3) 1 norm(5) by (rule nearest_big_pos)
        then have "?N = Fin ((k + 2 ^ 148) div 2 ^ 149 * 2 ^ 149)"
          unfolding kx by (simp only: floor_units0 dx)
        then show ?thesis using nm by (rule reg)
      next
        case False
        then have k: "k = - (q * 2 ^ t)" using norm(1) by simp
        have kx: "k = (- x) * 2 ^ 149" using xk False by simp
        have "round_f32 (k + 2 ^ 148) 0 = Fin k"
          unfolding k using norm(2,3) 1 norm(5) by (rule nearest_big_neg)
        then have "?N = Fin ((k + 2 ^ 148) div 2 ^ 149 * 2 ^ 149)"
          unfolding kx by (simp only: floor_units0 dx)
        then show ?thesis using nm by (rule reg)
      qed
    next
      case 2
      have dx: "(y * 2 ^ 149 + 2 ^ 148) div (2::int) ^ 149 = y" for y by simp
      have dz: "(y * 2 ^ 149) div (2::int) ^ 149 = y" for y by simp
      have c1: "2 ^ 23 * 2 ^ 149 < q * (2::int) ^ 149 \<longleftrightarrow> 2 ^ 23 < q" by simp
      have c2: "q * (2::int) ^ 149 < 2 ^ 24 * 2 ^ 149" using norm(3) by simp
      have ab: "\<bar>k\<bar> = q * 2 ^ 149" using norm(1) 2 by simp
      show ?thesis
      proof (cases "0 \<le> k")
        case True
        then have k: "k = q * 2 ^ 149" using ab by simp
        have "round_f32 (k + 2 ^ 148) 0 = Fin ((if odd q then q + 1 else q) * 2 ^ 149)"
          unfolding k using norm(2,3) by (rule nearest_mid_pos)
        then have N: "?N = Fin ((if odd q then q + 1 else q) * 2 ^ 149)"
          by (simp only: floor_units0)
        have q23: "2 ^ 23 < q" if "odd q"
        proof (rule ccontr)
          assume "\<not> 2 ^ 23 < q"
          then have "q = 2 ^ 23" using norm(2) by simp
          with that show False by simp
        qed
        have mid: "?mid \<longleftrightarrow> odd q"
          unfolding ab c1 unfolding k dz using c2 q23 by blast
        have d: "(k + 2 ^ 148) div 2 ^ 149 = q" unfolding k by (rule dx)
        show ?thesis unfolding N d mid using nS by simp
      next
        case False
        then have k: "k = (- q) * 2 ^ 149" using ab by simp
        have d: "(k + 2 ^ 148) div 2 ^ 149 = - q" unfolding k by (rule dx)
        have kd: "k div 2 ^ 149 = - q" unfolding k by (rule dz)
        show ?thesis
        proof (cases "q = 2 ^ 23")
          case True
          have "round_f32 (k + 2 ^ 148) 0 = Fin (k + 2 ^ 148)"
            using nearest_mid_neg_edge by (simp add: k True)
          then have "?N = Fin ((k + 2 ^ 148) div 2 ^ 149 * 2 ^ 149)"
            by (rule nearest_exact_sum)
          moreover have "\<not> ?mid" unfolding ab by (simp add: True)
          ultimately show ?thesis by (rule reg)
        next
          case False
          then have lt: "2 ^ 23 < q" using norm(2) by simp
          have "round_f32 (- (q * 2 ^ 149) + 2 ^ 148) 0 =
                  Fin (- ((if odd q then q - 1 else q) * 2 ^ 149))"
            using lt norm(3) by (rule nearest_mid_neg)
          then have "floor_f32 (round_f32 (- (q * 2 ^ 149) + 2 ^ 148) 0) =
                  Fin (- ((if odd q then q - 1 else q) * 2 ^ 149))"
            by (simp only: floor_units0_neg)
          then have N: "?N = Fin (- ((if odd q then q - 1 else q) * 2 ^ 149))"
            by (simp add: k)
          have mid: "?mid \<longleftrightarrow> odd q"
            unfolding ab c1 kd using c2 lt by simp
          show ?thesis unfolding N d mid using nS by simp
        qed
      qed
    next
      case 3
      have "q * 2 ^ t < 2 ^ 24 * (2::int) ^ t"
        using norm(3) by (intro mult_strict_right_mono) simp_all
      also have "\<dots> = 2 ^ (24 + t)" by (simp add: power_add)
      also have "\<dots> \<le> (2::int) ^ 172" using 3 by (intro power_increasing) simp_all
      finally have lt: "\<bar>k\<bar> < 2 ^ 172" using norm(1) by simp
      then have nm: "\<not> ?mid" by simp
      consider "2 ^ 148 \<le> k" | "k \<le> - (2 ^ 148)" | "- (2 ^ 148) < k" "k < 2 ^ 148" by linarith
      then have "?N = Fin ((k + 2 ^ 148) div 2 ^ 149 * 2 ^ 149)"
      proof cases
        case 1
        then have k: "k = q * 2 ^ t" using norm(1) by simp
        show ?thesis
          unfolding k using norm(2,3) 3 1 [unfolded k] by (rule nearest_pos_le_148)
      next
        case 2
        then have k: "k = - (q * 2 ^ t)" using norm(1) by simp
        have q0: "0 \<le> q" using norm(2) by simp
        have "2 ^ 148 \<le> q * (2::int) ^ t" using 2 k by simp
        with q0 norm(3) 3
        have "round_f32 (- (q * 2 ^ t) + 2 ^ 148) 0 = Fin (- (q * 2 ^ t) + 2 ^ 148)"
          by (rule sum_exact_neg)
        then show ?thesis unfolding k by (rule nearest_exact_sum)
      next
        case 3
        with assms show ?thesis using nS by (rule nearest_near_zero)
      qed
      then show ?thesis using nm by (rule reg)
    qed
  qed
qed

lemma nearest_regular:
  assumes "is_f32 (Fin k)" "k \<noteq> 16777215 * 2 ^ 124"
    "\<not> (2 ^ 23 * 2 ^ 149 < \<bar>k\<bar> \<and> \<bar>k\<bar> < 2 ^ 24 * 2 ^ 149 \<and> odd (k div 2 ^ 149))"
  shows "floor_f32 (fadd (Fin k) f32_half) = spec_nearest (Fin k)"
  using nearest_vs_exact [OF assms(1)] assms(2,3)
  by (simp only: fadd_half spec_nearest.simps if_False simp_thms add_0_right)

lemma nearest_irregular:
  assumes "is_f32 (Fin k)"
    "k = 16777215 * 2 ^ 124
     \<or> (2 ^ 23 * 2 ^ 149 < \<bar>k\<bar> \<and> \<bar>k\<bar> < 2 ^ 24 * 2 ^ 149 \<and> odd (k div 2 ^ 149))"
  shows "floor_f32 (fadd (Fin k) f32_half) = Fin (((k + 2 ^ 148) div 2 ^ 149 + 1) * 2 ^ 149)"
    "floor_f32 (fadd (Fin k) f32_half) \<noteq> spec_nearest (Fin k)"
proof -
  show e: "floor_f32 (fadd (Fin k) f32_half) = Fin (((k + 2 ^ 148) div 2 ^ 149 + 1) * 2 ^ 149)"
    using nearest_vs_exact [OF assms(1)] assms(2)
    by (simp only: fadd_half if_True simp_thms)
  show "floor_f32 (fadd (Fin k) f32_half) \<noteq> spec_nearest (Fin k)"
    unfolding e by simp
qed

lemma nearest_not_finite: "\<not> is_finite x \<Longrightarrow> floor_f32 (fadd x f32_half) = spec_nearest x"
  by (cases x) (simp_all add: f32_half_def)

lemma spec_nearest_examples:
  "spec_nearest (f32_of_int 8388609) = f32_of_int 8388609"
  "spec_nearest (Fin (16777215 * 2 ^ 124)) = f32_of_int 0"
  "f32_of_int 8388610 \<noteq> f32_of_int 8388609"
  "f32_of_int 1 \<noteq> f32_of_int 0"
  by (simp_all add: f32_of_int_small)


section \<open>The static helpers: alignment and rounding\<close>

lemma mk_Vector2_sel: "m_x (mk_Vector2 a b) = a" "m_y (mk_Vector2 a b) = b"
  by (simp_all add: mk_Vector2_def)

lemma Align_eq:
  "Align pos size' h v =
     mk_Vector2
       (case h of
          HAlign_Left \<Rightarrow> m_x pos
        | HAlign_Center \<Rightarrow> fsub (m_x pos) (fmul (m_x size') f32_half)
        | HAlign_Right \<Rightarrow> fsub (m_x pos) (m_x size'))
       (case v of
          VAlign_Top \<Rightarrow> m_y pos
        | VAlign_Center \<Rightarrow> fsub (m_y pos) (fmul (m_y size') f32_half)
        | VAlign_Bottom \<Rightarrow> fsub (m_y pos) (m_y size'))"
  by (cases h; cases v)
     (simp_all add: Align_def CreateZero_def mk_Vector2_def SetX_def SetY_def GetX_def GetY_def)

lemma RoundXY_eq:
  "RoundXY v Rounding_None = v"
  "RoundXY v Rounding_Nearest =
     v\<lparr>m_x := floor_f32 (fadd (m_x v) f32_half), m_y := floor_f32 (fadd (m_y v) f32_half)\<rparr>"
  "RoundXY v Rounding_Down = v\<lparr>m_x := floor_f32 (m_x v), m_y := floor_f32 (m_y v)\<rparr>"
  "RoundXY v Rounding_Up = v\<lparr>m_x := ceil_f32 (m_x v), m_y := ceil_f32 (m_y v)\<rparr>"
  by (simp_all add: RoundXY_def SetX_def SetY_def GetX_def GetY_def)

text \<open>The components of an aligned or rounded value are values of the format again.\<close>

lemma Align_is_f32:
  assumes "is_f32 (m_x pos)" "is_f32 (m_y pos)"
  shows "is_f32 (m_x (Align pos size' h v))" "is_f32 (m_y (Align pos size' h v))"
  using assms by (cases h; cases v; simp add: Align_eq mk_Vector2_sel is_f32_fsub)+

lemma RoundXY_is_f32:
  assumes "is_f32 (m_x v)" "is_f32 (m_y v)"
  shows "is_f32 (m_x (RoundXY v p))" "is_f32 (m_y (RoundXY v p))"
  using assms by (cases p; simp add: RoundXY_eq is_f32_floor_ceil is_f32_fadd)+

text \<open>An infinite or NaN component passes through every policy.\<close>

lemma RoundXY_not_finite_x:
  assumes "\<not> is_finite (m_x v)"
  shows "m_x (RoundXY v p) = m_x v"
  using assms by (cases p; cases "m_x v") (simp_all add: RoundXY_eq f32_half_def)

lemma RoundXY_not_finite_y:
  assumes "\<not> is_finite (m_y v)"
  shows "m_y (RoundXY v p) = m_y v"
  using assms by (cases p; cases "m_y v") (simp_all add: RoundXY_eq f32_half_def)

text \<open>
  Claim C2. For every position, every size and each of the nine combinations of horizontal
  and vertical alignment, \<^verbatim>\<open>Align\<close> returns the top-left corner whose x is \<open>position.x\<close> for
  Left, \<open>position.x - size.x/2\<close> for Center and \<open>position.x - size.x\<close> for Right, and whose y
  is \<open>position.y\<close> for Top, \<open>position.y - size.y/2\<close> for Center and \<open>position.y - size.y\<close> for
  Bottom; and \<^verbatim>\<open>Align((100,50),(20,10),Center,Bottom) = (90,40)\<close>. The subtraction is that
  of \<^verbatim>\<open>float\<close>; the half is the product with \<^verbatim>\<open>0.5f\<close>, which is the \<^verbatim>\<open>float\<close> nearest to the
  exact half.
\<close>

theorem Align_formula:
  "Align pos size' h v =
     mk_Vector2
       (case h of
          HAlign_Left \<Rightarrow> m_x pos
        | HAlign_Center \<Rightarrow> fsub (m_x pos) (fmul (m_x size') f32_half)
        | HAlign_Right \<Rightarrow> fsub (m_x pos) (m_x size'))
       (case v of
          VAlign_Top \<Rightarrow> m_y pos
        | VAlign_Center \<Rightarrow> fsub (m_y pos) (fmul (m_y size') f32_half)
        | VAlign_Bottom \<Rightarrow> fsub (m_y pos) (m_y size'))
   \<and> fmul (Fin a) f32_half = round_f32 a 1
   \<and> Align (mk_Vector2 (f32_of_int 100) (f32_of_int 50))
         (mk_Vector2 (f32_of_int 20) (f32_of_int 10)) HAlign_Center VAlign_Bottom
       = mk_Vector2 (f32_of_int 90) (f32_of_int 40)"
proof (intro conjI)
  show "Align (mk_Vector2 (f32_of_int 100) (f32_of_int 50))
         (mk_Vector2 (f32_of_int 20) (f32_of_int 10)) HAlign_Center VAlign_Bottom
       = mk_Vector2 (f32_of_int 90) (f32_of_int 40)"
    by (simp only: Align_eq mk_Vector2_sel HAlign.case VAlign.case example_align_x
        example_align_y)
qed (rule Align_eq fmul_half)+

text \<open>
  Claim C3, as the code has it. For every 2D value and each rounding policy, \<^verbatim>\<open>RoundXY\<close>
  applies the policy to each axis on its own: None is the identity, Down is
  \<open>floor(component)\<close>, Up is \<open>ceil(component)\<close>, and Nearest is the floor of the \<^verbatim>\<open>float\<close> sum
  \<^verbatim>\<open>component + 0.5f\<close>. For a \<^verbatim>\<open>float\<close> component \<open>k \<cdot> 2\<^sup>-\<^sup>1\<^sup>4\<^sup>9\<close> that is \<open>floor(component + 0.5)\<close>
  exactly, with two kinds of exception, where it is one more: the largest \<^verbatim>\<open>float\<close> below a
  half, \<open>16777215 \<cdot> 2\<^sup>-\<^sup>2\<^sup>5\<close>, which goes to 1, and the odd whole numbers strictly between
  \<open>2\<^sup>2\<^sup>3\<close> and \<open>2\<^sup>2\<^sup>4\<close> in magnitude, which go to the whole number above. An infinite or NaN
  component stays what it is. A tie, the value \<open>n + 0.5\<close> for a whole number \<open>n\<close>, goes up
  to \<open>n + 1\<close>. And \<^verbatim>\<open>RoundXY((3.4,3.6),Nearest) = (3,4)\<close>,
  \<^verbatim>\<open>RoundXY((3.4,3.6),Up) = (4,4)\<close>, \<^verbatim>\<open>RoundXY((3.4,3.6),Down) = (3,3)\<close>.
\<close>

theorem RoundXY_formula:
  "RoundXY v Rounding_None = v
   \<and> RoundXY v Rounding_Nearest =
       v\<lparr>m_x := floor_f32 (fadd (m_x v) f32_half), m_y := floor_f32 (fadd (m_y v) f32_half)\<rparr>
   \<and> RoundXY v Rounding_Down = v\<lparr>m_x := floor_f32 (m_x v), m_y := floor_f32 (m_y v)\<rparr>
   \<and> RoundXY v Rounding_Up = v\<lparr>m_x := ceil_f32 (m_x v), m_y := ceil_f32 (m_y v)\<rparr>
   \<and> (is_f32 (Fin k) \<and> k \<noteq> 16777215 * 2 ^ 124
        \<and> \<not> (2 ^ 23 * 2 ^ 149 < \<bar>k\<bar> \<and> \<bar>k\<bar> < 2 ^ 24 * 2 ^ 149 \<and> odd (k div 2 ^ 149)) \<longrightarrow>
        floor_f32 (fadd (Fin k) f32_half) = spec_nearest (Fin k))
   \<and> (is_f32 (Fin k)
        \<and> (k = 16777215 * 2 ^ 124
            \<or> (2 ^ 23 * 2 ^ 149 < \<bar>k\<bar> \<and> \<bar>k\<bar> < 2 ^ 24 * 2 ^ 149 \<and> odd (k div 2 ^ 149))) \<longrightarrow>
        floor_f32 (fadd (Fin k) f32_half) = Fin (((k + 2 ^ 148) div 2 ^ 149 + 1) * 2 ^ 149)
        \<and> floor_f32 (fadd (Fin k) f32_half) \<noteq> spec_nearest (Fin k))
   \<and> (\<not> is_finite x \<longrightarrow> floor_f32 (fadd x f32_half) = spec_nearest x)
   \<and> (\<bar>2 * n + 1\<bar> < 2 ^ 24 \<longrightarrow>
        floor_f32 (fadd (Fin (n * 2 ^ 149 + 2 ^ 148)) f32_half) = Fin ((n + 1) * 2 ^ 149))
   \<and> RoundXY (mk_Vector2 f32_3_4 f32_3_6) Rounding_Nearest
       = mk_Vector2 (f32_of_int 3) (f32_of_int 4)
   \<and> RoundXY (mk_Vector2 f32_3_4 f32_3_6) Rounding_Up
       = mk_Vector2 (f32_of_int 4) (f32_of_int 4)
   \<and> RoundXY (mk_Vector2 f32_3_4 f32_3_6) Rounding_Down
       = mk_Vector2 (f32_of_int 3) (f32_of_int 3)"
proof (intro conjI impI)
  show "RoundXY (mk_Vector2 f32_3_4 f32_3_6) Rounding_Nearest
       = mk_Vector2 (f32_of_int 3) (f32_of_int 4)"
    by (simp add: RoundXY_eq mk_Vector2_def example_nearest_x example_nearest_y)
  show "RoundXY (mk_Vector2 f32_3_4 f32_3_6) Rounding_Up
       = mk_Vector2 (f32_of_int 4) (f32_of_int 4)"
    by (simp add: RoundXY_eq mk_Vector2_def example_up)
  show "RoundXY (mk_Vector2 f32_3_4 f32_3_6) Rounding_Down
       = mk_Vector2 (f32_of_int 3) (f32_of_int 3)"
    by (simp add: RoundXY_eq mk_Vector2_def example_down)
  show "floor_f32 (fadd (Fin k) f32_half) = spec_nearest (Fin k)"
    if "is_f32 (Fin k) \<and> k \<noteq> 16777215 * 2 ^ 124
        \<and> \<not> (2 ^ 23 * 2 ^ 149 < \<bar>k\<bar> \<and> \<bar>k\<bar> < 2 ^ 24 * 2 ^ 149 \<and> odd (k div 2 ^ 149))"
    using that by (intro nearest_regular) blast+
  show "floor_f32 (fadd (Fin k) f32_half) = Fin (((k + 2 ^ 148) div 2 ^ 149 + 1) * 2 ^ 149)"
    if "is_f32 (Fin k)
        \<and> (k = 16777215 * 2 ^ 124
            \<or> (2 ^ 23 * 2 ^ 149 < \<bar>k\<bar> \<and> \<bar>k\<bar> < 2 ^ 24 * 2 ^ 149 \<and> odd (k div 2 ^ 149)))"
    using that by (intro nearest_irregular(1)) blast+
  show "floor_f32 (fadd (Fin k) f32_half) \<noteq> spec_nearest (Fin k)"
    if "is_f32 (Fin k)
        \<and> (k = 16777215 * 2 ^ 124
            \<or> (2 ^ 23 * 2 ^ 149 < \<bar>k\<bar> \<and> \<bar>k\<bar> < 2 ^ 24 * 2 ^ 149 \<and> odd (k div 2 ^ 149)))"
    using that by (intro nearest_irregular(2)) blast+
  show "floor_f32 (fadd x f32_half) = spec_nearest x" if "\<not> is_finite x"
    using that by (rule nearest_not_finite)
qed (simp_all only: RoundXY_eq nearest_tie)

theorem RoundXY_formula_witness:
  "is_f32 (Fin (14260634 * 2 ^ 127)) \<and> 14260634 * 2 ^ 127 \<noteq> (16777215 * 2 ^ 124 :: int)
   \<and> \<not> (2 ^ 23 * 2 ^ 149 < \<bar>14260634 * 2 ^ 127 :: int\<bar>
         \<and> \<bar>14260634 * 2 ^ 127 :: int\<bar> < 2 ^ 24 * 2 ^ 149
         \<and> odd ((14260634 * 2 ^ 127 :: int) div 2 ^ 149))
   \<and> floor_f32 (fadd (Fin (14260634 * 2 ^ 127)) f32_half) = spec_nearest (Fin (14260634 * 2 ^ 127))
   \<and> is_f32 (Fin (8388609 * 2 ^ 149))
   \<and> (8388609 * 2 ^ 149 = (16777215 * 2 ^ 124 :: int)
       \<or> (2 ^ 23 * 2 ^ 149 < \<bar>8388609 * 2 ^ 149 :: int\<bar>
           \<and> \<bar>8388609 * 2 ^ 149 :: int\<bar> < 2 ^ 24 * 2 ^ 149
           \<and> odd ((8388609 * 2 ^ 149 :: int) div 2 ^ 149)))
   \<and> floor_f32 (fadd (Fin (8388609 * 2 ^ 149)) f32_half)
       = Fin (((8388609 * 2 ^ 149 + 2 ^ 148) div 2 ^ 149 + 1) * 2 ^ 149)
   \<and> floor_f32 (fadd (Fin (8388609 * 2 ^ 149)) f32_half) \<noteq> spec_nearest (Fin (8388609 * 2 ^ 149))
   \<and> \<not> is_finite PInf
   \<and> floor_f32 (fadd PInf f32_half) = spec_nearest PInf
   \<and> \<bar>2 * 2 + 1\<bar> < (2::int) ^ 24
   \<and> floor_f32 (fadd (Fin (2 * 2 ^ 149 + 2 ^ 148)) f32_half) = Fin ((2 + 1) * 2 ^ 149)
   \<and> \<bar>2 * (- 3) + 1\<bar> < (2::int) ^ 24
   \<and> floor_f32 (fadd (Fin ((- 3) * 2 ^ 149 + 2 ^ 148)) f32_half) = Fin ((- 3 + 1) * 2 ^ 149)"
proof -
  have a1: "is_f32 (Fin (14260634 * 2 ^ 127))"
    unfolding is_f32.simps by (rule round_f32_exact) simp_all
  have a2: "14260634 * 2 ^ 127 \<noteq> (16777215 * 2 ^ 124 :: int)" by simp
  have a3: "\<not> (2 ^ 23 * 2 ^ 149 < \<bar>14260634 * 2 ^ 127 :: int\<bar>
         \<and> \<bar>14260634 * 2 ^ 127 :: int\<bar> < 2 ^ 24 * 2 ^ 149
         \<and> odd ((14260634 * 2 ^ 127 :: int) div 2 ^ 149))" by simp
  have b1: "is_f32 (Fin (8388609 * 2 ^ 149))"
    unfolding is_f32.simps by (rule round_f32_exact) simp_all
  have b2: "8388609 * 2 ^ 149 = (16777215 * 2 ^ 124 :: int)
       \<or> (2 ^ 23 * 2 ^ 149 < \<bar>8388609 * 2 ^ 149 :: int\<bar>
           \<and> \<bar>8388609 * 2 ^ 149 :: int\<bar> < 2 ^ 24 * 2 ^ 149
           \<and> odd ((8388609 * 2 ^ 149 :: int) div 2 ^ 149))" by simp
  have c1: "\<not> is_finite PInf" by simp
  have d1: "\<bar>2 * 2 + 1\<bar> < (2::int) ^ 24" by simp
  have d2: "\<bar>2 * (- 3) + 1\<bar> < (2::int) ^ 24" by simp
  from a1 a2 a3
    RoundXY_formula [where k = "14260634 * 2 ^ 127" and v = CreateZero and x = PInf and n = 2]
  have A: "floor_f32 (fadd (Fin (14260634 * 2 ^ 127)) f32_half)
            = spec_nearest (Fin (14260634 * 2 ^ 127))"
    by blast
  from b1 b2 c1 d1
    RoundXY_formula [where k = "8388609 * 2 ^ 149" and v = CreateZero and x = PInf and n = 2]
  have B: "floor_f32 (fadd (Fin (8388609 * 2 ^ 149)) f32_half)
       = Fin (((8388609 * 2 ^ 149 + 2 ^ 148) div 2 ^ 149 + 1) * 2 ^ 149)
     \<and> floor_f32 (fadd (Fin (8388609 * 2 ^ 149)) f32_half) \<noteq> spec_nearest (Fin (8388609 * 2 ^ 149))
     \<and> floor_f32 (fadd PInf f32_half) = spec_nearest PInf
     \<and> floor_f32 (fadd (Fin (2 * 2 ^ 149 + 2 ^ 148)) f32_half) = Fin ((2 + 1) * 2 ^ 149)"
    by blast
  from d2
    RoundXY_formula [where k = "8388609 * 2 ^ 149" and v = CreateZero and x = PInf and n = "- 3"]
  have C: "floor_f32 (fadd (Fin ((- 3) * 2 ^ 149 + 2 ^ 148)) f32_half) = Fin ((- 3 + 1) * 2 ^ 149)"
    by blast
  show ?thesis using a1 a2 a3 b1 b2 c1 d1 d2 A B C by blast
qed

text \<open>
  Claim C3, as stated, fails for Nearest: on \<open>(8388609, 16777215 \<cdot> 2\<^sup>-\<^sup>2\<^sup>5)\<close>, two \<^verbatim>\<open>float\<close>s,
  \<^verbatim>\<open>RoundXY\<close> returns \<open>(8388610, 1)\<close>, and \<open>floor(component + 0.5)\<close> is 8388609 and 0.
\<close>

theorem RoundXY_formula_counterexample:
  "is_f32 (f32_of_int 8388609) \<and> is_f32 (Fin (16777215 * 2 ^ 124))
   \<and> RoundXY (mk_Vector2 (f32_of_int 8388609) (Fin (16777215 * 2 ^ 124))) Rounding_Nearest
       = mk_Vector2 (f32_of_int 8388610) (f32_of_int 1)
   \<and> spec_nearest (f32_of_int 8388609) = f32_of_int 8388609
   \<and> spec_nearest (Fin (16777215 * 2 ^ 124)) = f32_of_int 0
   \<and> f32_of_int 8388610 \<noteq> spec_nearest (f32_of_int 8388609)
   \<and> f32_of_int 1 \<noteq> spec_nearest (Fin (16777215 * 2 ^ 124))"
proof (intro conjI)
  show "is_f32 (f32_of_int 8388609)" by (rule is_f32_of_int) simp
  show "is_f32 (Fin (16777215 * 2 ^ 124))"
    unfolding is_f32.simps by (rule round_f32_exact) simp_all
  show "RoundXY (mk_Vector2 (f32_of_int 8388609) (Fin (16777215 * 2 ^ 124))) Rounding_Nearest
       = mk_Vector2 (f32_of_int 8388610) (f32_of_int 1)"
    by (simp only: RoundXY_eq mk_Vector2_sel nearest_odd_whole nearest_below_half)
       (simp add: mk_Vector2_def)
  show "spec_nearest (f32_of_int 8388609) = f32_of_int 8388609"
    by (rule spec_nearest_examples)
  show "spec_nearest (Fin (16777215 * 2 ^ 124)) = f32_of_int 0"
    by (rule spec_nearest_examples)
  show "f32_of_int 8388610 \<noteq> spec_nearest (f32_of_int 8388609)"
    by (simp only: spec_nearest_examples simp_thms)
  show "f32_of_int 1 \<noteq> spec_nearest (Fin (16777215 * 2 ^ 124))"
    by (simp only: spec_nearest_examples simp_thms)
qed

text \<open>
  Claim C4. \<^verbatim>\<open>RoundXY\<close> is idempotent: for every 2D value \<open>v\<close> (of \<^verbatim>\<open>float\<close> components) and
  every rounding policy \<open>p\<close>, rounding the rounded value again gives the rounded value. The
  two sides are the same value; for a NaN component, which \<^verbatim>\<open>==\<close> of \<^verbatim>\<open>float\<close> tells apart
  from itself, both sides are NaN.
\<close>

theorem RoundXY_idempotent:
  assumes "is_f32 (m_x v)" "is_f32 (m_y v)"
  shows "RoundXY (RoundXY v p) p = RoundXY v p"
proof (cases p)
  case Rounding_None
  then show ?thesis by (simp add: RoundXY_eq)
next
  case Rounding_Nearest
  then show ?thesis using assms by (simp add: RoundXY_eq nearest_idem)
next
  case Rounding_Down
  then show ?thesis by (simp add: RoundXY_eq floor_idem)
next
  case Rounding_Up
  then show ?thesis by (simp add: RoundXY_eq ceil_idem)
qed

theorem RoundXY_idempotent_witness:
  "is_f32 (m_x (mk_Vector2 (f32_of_int 8388609) f32_3_6))
   \<and> is_f32 (m_y (mk_Vector2 (f32_of_int 8388609) f32_3_6))
   \<and> RoundXY (RoundXY (mk_Vector2 (f32_of_int 8388609) f32_3_6) Rounding_Nearest) Rounding_Nearest
       = RoundXY (mk_Vector2 (f32_of_int 8388609) f32_3_6) Rounding_Nearest"
proof -
  have h1: "is_f32 (m_x (mk_Vector2 (f32_of_int 8388609) f32_3_6))"
    by (simp only: mk_Vector2_sel) (rule is_f32_of_int, simp)
  have h2: "is_f32 (m_y (mk_Vector2 (f32_of_int 8388609) f32_3_6))"
    by (simp only: mk_Vector2_sel is_f32_3_6)
  show ?thesis
    using h1 h2 RoundXY_idempotent [OF h1 h2, of Rounding_Nearest] by blast
qed

text \<open>
  Claim C10, as the code has it. For every 2D value and every rounding policy other than
  None, each component that is a finite \<^verbatim>\<open>float\<close> (neither an infinity nor NaN) is a whole
  number after rounding; so both are, when both are finite. An infinite or NaN component
  is returned unchanged, under every policy: it is no whole number.
\<close>

theorem RoundXY_integral:
  "(is_f32 (m_x v) \<and> is_finite (m_x v) \<and> p \<noteq> Rounding_None \<longrightarrow>
      is_integral (m_x (RoundXY v p)))
   \<and> (is_f32 (m_y v) \<and> is_finite (m_y v) \<and> p \<noteq> Rounding_None \<longrightarrow>
      is_integral (m_y (RoundXY v p)))
   \<and> (\<not> is_finite (m_x v) \<longrightarrow> m_x (RoundXY v p) = m_x v \<and> \<not> is_integral (m_x (RoundXY v p)))
   \<and> (\<not> is_finite (m_y v) \<longrightarrow> m_y (RoundXY v p) = m_y v \<and> \<not> is_integral (m_y (RoundXY v p)))"
proof (intro conjI impI)
  show "is_integral (m_x (RoundXY v p))"
    if "is_f32 (m_x v) \<and> is_finite (m_x v) \<and> p \<noteq> Rounding_None"
  proof -
    from that obtain a where a: "m_x v = Fin a" by (cases "m_x v") simp_all
    from that have f: "is_f32 (Fin a)" by (simp add: a)
    show ?thesis
      using that nearest_integral [OF f]
      by (cases p) (simp_all add: RoundXY_eq a floor_ceil_integral)
  qed
  show "is_integral (m_y (RoundXY v p))"
    if "is_f32 (m_y v) \<and> is_finite (m_y v) \<and> p \<noteq> Rounding_None"
  proof -
    from that obtain b where b: "m_y v = Fin b" by (cases "m_y v") simp_all
    from that have f: "is_f32 (Fin b)" by (simp add: b)
    show ?thesis
      using that nearest_integral [OF f]
      by (cases p) (simp_all add: RoundXY_eq b floor_ceil_integral)
  qed
  show x: "m_x (RoundXY v p) = m_x v" if "\<not> is_finite (m_x v)"
    using that by (rule RoundXY_not_finite_x)
  show "\<not> is_integral (m_x (RoundXY v p))" if "\<not> is_finite (m_x v)"
    using that unfolding x [OF that] by (cases "m_x v") simp_all
  show y: "m_y (RoundXY v p) = m_y v" if "\<not> is_finite (m_y v)"
    using that by (rule RoundXY_not_finite_y)
  show "\<not> is_integral (m_y (RoundXY v p))" if "\<not> is_finite (m_y v)"
    using that unfolding y [OF that] by (cases "m_y v") simp_all
qed

theorem RoundXY_integral_witness:
  "is_f32 (m_x (mk_Vector2 f32_3_4 PInf)) \<and> is_finite (m_x (mk_Vector2 f32_3_4 PInf))
   \<and> Rounding_Nearest \<noteq> Rounding_None
   \<and> is_integral (m_x (RoundXY (mk_Vector2 f32_3_4 PInf) Rounding_Nearest))
   \<and> \<not> is_finite (m_y (mk_Vector2 f32_3_4 PInf))
   \<and> m_y (RoundXY (mk_Vector2 f32_3_4 PInf) Rounding_Nearest) = m_y (mk_Vector2 f32_3_4 PInf)
   \<and> \<not> is_integral (m_y (RoundXY (mk_Vector2 f32_3_4 PInf) Rounding_Nearest))
   \<and> is_f32 (m_y (mk_Vector2 NaN f32_3_6)) \<and> is_finite (m_y (mk_Vector2 NaN f32_3_6))
   \<and> Rounding_Up \<noteq> Rounding_None
   \<and> is_integral (m_y (RoundXY (mk_Vector2 NaN f32_3_6) Rounding_Up))
   \<and> \<not> is_finite (m_x (mk_Vector2 NaN f32_3_6))
   \<and> m_x (RoundXY (mk_Vector2 NaN f32_3_6) Rounding_Up) = m_x (mk_Vector2 NaN f32_3_6)
   \<and> \<not> is_integral (m_x (RoundXY (mk_Vector2 NaN f32_3_6) Rounding_Up))"
proof -
  have h1: "is_f32 (m_x (mk_Vector2 f32_3_4 PInf))"
    and h2: "is_f32 (m_y (mk_Vector2 NaN f32_3_6))"
    by (simp_all only: mk_Vector2_sel is_f32_3_4 is_f32_3_6)
  have h3: "is_finite (m_x (mk_Vector2 f32_3_4 PInf))"
    and h4: "is_finite (m_y (mk_Vector2 NaN f32_3_6))"
    by (simp_all add: mk_Vector2_sel f32_3_4_def f32_3_6_def)
  have h5: "Rounding_Nearest \<noteq> Rounding_None" and h6: "Rounding_Up \<noteq> Rounding_None"
    by simp_all
  have h7: "\<not> is_finite (m_y (mk_Vector2 f32_3_4 PInf))"
    and h8: "\<not> is_finite (m_x (mk_Vector2 NaN f32_3_6))"
    by (simp_all add: mk_Vector2_sel)
  note A = RoundXY_integral [where v = "mk_Vector2 f32_3_4 PInf" and p = Rounding_Nearest]
  note B = RoundXY_integral [where v = "mk_Vector2 NaN f32_3_6" and p = Rounding_Up]
  show ?thesis
    using h1 h2 h3 h4 h5 h6 h7 h8 A B by blast
qed

text \<open>
  Claim C10, as stated, fails: rounding \<open>(+\<infinity>, 0)\<close> down leaves the x component infinite.
\<close>

theorem RoundXY_integral_counterexample:
  "\<not> (is_integral (m_x (RoundXY (mk_Vector2 PInf (Fin 0)) Rounding_Down))
      \<and> is_integral (m_y (RoundXY (mk_Vector2 PInf (Fin 0)) Rounding_Down)))"
  by (simp add: RoundXY_eq mk_Vector2_def)


section \<open>The option records\<close>

text \<open>
  Claim C7. A default-constructed \<^verbatim>\<open>ImageOptions\<close> has tint white \<open>(1,1,1)\<close>, pixel rounding
  Nearest and clamp false, and its default-constructed \<^verbatim>\<open>RenderState\<close> has blending enabled
  with source factor \<^verbatim>\<open>AlphaSource\<close> and destination factor \<^verbatim>\<open>AlphaSourceInverse\<close>, and the
  depth test disabled; \<open>1.0\<close> is \<open>Fin (2 ^ 149)\<close>.
\<close>

theorem ImageOptions_defaults:
  "ImageOptions.color (ImageOptions_ctor members)
     = mk_Vector3 (Fin (2 ^ 149)) (Fin (2 ^ 149)) (Fin (2 ^ 149))
   \<and> pixelRounding (ImageOptions_ctor members) = Rounding_Nearest
   \<and> m_clamp (ImageOptions_ctor members) = False
   \<and> m_renderState (ImageOptions_ctor members) = RenderState_ctor members
   \<and> TargetBlendState.m_enable (m_blendState (RenderState_ctor members)) = True
   \<and> m_blendSource (m_blendState (RenderState_ctor members)) = AlphaSource
   \<and> m_blendDest (m_blendState (RenderState_ctor members)) = AlphaSourceInverse
   \<and> DepthState.m_enable (m_depthState (RenderState_ctor members)) = False"
  by (simp add: ImageOptions_ctor_def RenderState_ctor_def Let_def f32_of_int_1)

text \<open>
  Claim C8, as the code has it. The documented defaults of \<^verbatim>\<open>TextOptions\<close> (horizontal
  alignment Left, vertical alignment Top, rotation 0, effect index 0, colour \<open>(1,1,1)\<close>, zero
  drop-shadow offset and a drop-shadow colour of zero alpha) are the values of the default
  record of an engine that has not been reconfigured, which \<^verbatim>\<open>GetDefaultTextOptions\<close> returns.
  Default construction of a \<^verbatim>\<open>TextOptions\<close> sets the font name to the empty string and no
  other member.
\<close>

theorem TextOptions_defaults:
  "horizontalAlignment (IDraw2d_GetDefaultTextOptions (Engine_ctor members measureText))
     = HAlign_Left
   \<and> verticalAlignment (IDraw2d_GetDefaultTextOptions (Engine_ctor members measureText))
       = VAlign_Top
   \<and> rotation (IDraw2d_GetDefaultTextOptions (Engine_ctor members measureText)) = Fin 0
   \<and> effectIndex (IDraw2d_GetDefaultTextOptions (Engine_ctor members measureText)) = 0
   \<and> TextOptions.color (IDraw2d_GetDefaultTextOptions (Engine_ctor members measureText))
       = mk_Vector3 (Fin (2 ^ 149)) (Fin (2 ^ 149)) (Fin (2 ^ 149))
   \<and> dropShadowOffset (IDraw2d_GetDefaultTextOptions (Engine_ctor members measureText))
       = mk_Vector2 (Fin 0) (Fin 0)
   \<and> m_a (dropShadowColor (IDraw2d_GetDefaultTextOptions (Engine_ctor members measureText)))
       = Fin 0
   \<and> fontName (TextOptions_ctor storage) = []
   \<and> (TextOptions_ctor storage)\<lparr>fontName := fontName storage\<rparr> = storage"
  by (simp add: IDraw2d_GetDefaultTextOptions_def Engine_ctor_def documented_TextOptions_def
      TextOptions_ctor_def f32_of_int_0 f32_of_int_1 mk_Color_def)

text \<open>
  Claim C8, as stated, fails: a \<^verbatim>\<open>TextOptions\<close> default-constructed in zeroed storage has the
  colour \<open>(0,0,0)\<close>, not \<open>(1,1,1)\<close>.
\<close>

theorem TextOptions_ctor_counterexample:
  "TextOptions.color (TextOptions_ctor zero_TextOptions)
     \<noteq> mk_Vector3 (f32_of_int 1) (f32_of_int 1) (f32_of_int 1)"
  by (simp add: TextOptions_ctor_def zero_TextOptions_def mk_Vector3_def f32_of_int_1)


section \<open>The scoped helper\<close>

lemma get_set_defer:
  "IDraw2d_GetDeferPrimitives (engines (call p (IDraw2d_SetDeferPrimitives d) w) p) = d"
  by (simp add: call_def IDraw2d_GetDeferPrimitives_def IDraw2d_SetDeferPrimitives_def)

lemma InitCommon_Some:
  "InitCommon (Some p) deferCalls this w =
     (this\<lparr>m_draw2d := Some p,
           m_previousDeferCalls := IDraw2d_GetDeferPrimitives (engines w p),
           m_imageOptions := IDraw2d_GetDefaultImageOptions (engines w p),
           m_textOptions := IDraw2d_GetDefaultTextOptions (engines w p)\<rparr>,
      call p (IDraw2d_SetDeferPrimitives deferCalls) w)"
  by (simp add: InitCommon_def Let_def call_def IDraw2d_SetDeferPrimitives_def
      IDraw2d_GetDefaultImageOptions_def IDraw2d_GetDefaultTextOptions_def)

lemma InitCommon_None:
  "InitCommon None deferCalls this w =
     (case GetDefaultDraw2d w of
        None \<Rightarrow> (this\<lparr>m_draw2d := None\<rparr>, w)
      | Some p \<Rightarrow> InitCommon (Some p) deferCalls this w)"
  by (simp add: InitCommon_def Let_def split: option.splits)

lemmas draw_defs = DrawImage_def DrawImageAligned_def DrawQuad_def DrawLine_def
  DrawLineTextured_def DrawRectOutlineTextured_def DrawText_def GetTextSize_def
  Draw2dHelper_dtor_def

text \<open>
  Claim C1. For an engine, at the address \<open>p\<close>, whose defer mode is \<open>D0\<close>: constructing a
  helper \<open>A\<close> over it with defer flag \<open>D1\<close> and then a nested helper \<open>B\<close> with defer flag \<open>D2\<close>
  makes the mode \<open>D1\<close>, then \<open>D2\<close>; destroying \<open>B\<close> restores the mode to \<open>D1\<close>, and destroying
  \<open>A\<close> afterwards restores it to \<open>D0\<close>. Each destructor sets the engine's defer mode to the
  value its helper captured at construction, whatever became of the world in between.
\<close>

theorem nested_helpers_restore:
  "(case Draw2dHelper_ctor membersA storageA (Some p) D1 w of (A, w1) \<Rightarrow>
    case Draw2dHelper_ctor membersB storageB (Some p) D2 w1 of (B, w2) \<Rightarrow>
      m_previousDeferCalls A = IDraw2d_GetDeferPrimitives (engines w p)
      \<and> IDraw2d_GetDeferPrimitives (engines w1 p) = D1
      \<and> m_previousDeferCalls B = D1
      \<and> IDraw2d_GetDeferPrimitives (engines w2 p) = D2
      \<and> IDraw2d_GetDeferPrimitives (engines (Draw2dHelper_dtor B w2) p) = D1
      \<and> IDraw2d_GetDeferPrimitives (engines (Draw2dHelper_dtor A (Draw2dHelper_dtor B w2)) p)
          = IDraw2d_GetDeferPrimitives (engines w p)
      \<and> (\<forall>w'. IDraw2d_GetDeferPrimitives (engines (Draw2dHelper_dtor B w') p)
                  = m_previousDeferCalls B)
      \<and> (\<forall>w'. IDraw2d_GetDeferPrimitives (engines (Draw2dHelper_dtor A w') p)
                  = m_previousDeferCalls A))"
  by (simp add: Draw2dHelper_ctor_def InitCommon_Some Draw2dHelper_dtor_def get_set_defer)

text \<open>
  Claim C5. Constructing a helper with defer flag \<open>d\<close> over the engine at \<open>p\<close>, given
  explicitly or found by the default locator when no engine is given, saves the engine's
  current defer mode in the helper, then sets the engine's defer mode to \<open>d\<close> (and changes
  nothing else in the world), and initialises the helper's \<^verbatim>\<open>ImageOptions\<close> and
  \<^verbatim>\<open>TextOptions\<close> to copies of the engine's current default records.
\<close>

theorem ctor_saves_sets_copies:
  assumes "draw2d = Some p \<or> (draw2d = None \<and> GetDefaultDraw2d w = Some p)"
  shows "(case Draw2dHelper_ctor members storage draw2d deferCalls w of (this, w') \<Rightarrow>
      m_draw2d this = Some p
      \<and> m_previousDeferCalls this = IDraw2d_GetDeferPrimitives (engines w p)
      \<and> w' = call p (IDraw2d_SetDeferPrimitives deferCalls) w
      \<and> IDraw2d_GetDeferPrimitives (engines w' p) = deferCalls
      \<and> m_imageOptions this = IDraw2d_GetDefaultImageOptions (engines w p)
      \<and> m_textOptions this = IDraw2d_GetDefaultTextOptions (engines w p)
      \<and> IDraw2d_GetDefaultImageOptions (engines w' p)
          = IDraw2d_GetDefaultImageOptions (engines w p)
      \<and> IDraw2d_GetDefaultTextOptions (engines w' p)
          = IDraw2d_GetDefaultTextOptions (engines w p))
    \<and> Draw2dHelper_ctor_default members storage deferCalls w
        = Draw2dHelper_ctor members storage None deferCalls w"
proof -
  have "Draw2dHelper_ctor members storage draw2d deferCalls w
        = InitCommon (Some p) deferCalls (Draw2dHelper_members members storage) w"
    using assms by (auto simp: Draw2dHelper_ctor_def InitCommon_None)
  then show ?thesis
    by (simp add: InitCommon_Some get_set_defer Draw2dHelper_ctor_default_def Draw2dHelper_ctor_def)
       (simp add: call_def IDraw2d_SetDeferPrimitives_def IDraw2d_GetDefaultImageOptions_def
          IDraw2d_GetDefaultTextOptions_def)
qed

theorem ctor_saves_sets_copies_witness:
  "((None :: nat option) = Some 0 \<or> ((None :: nat option) = None \<and> GetDefaultDraw2d example_world = Some 0))
   \<and> (case Draw2dHelper_ctor example_members example_storage None True example_world of
        (this, w') \<Rightarrow>
          m_draw2d this = Some 0
          \<and> m_previousDeferCalls this = False
          \<and> IDraw2d_GetDeferPrimitives (engines w' 0) = True
          \<and> m_imageOptions this = ImageOptions_ctor example_members
          \<and> m_textOptions this = documented_TextOptions)"
proof -
  have h: "(None :: nat option) = Some 0
      \<or> ((None :: nat option) = None \<and> GetDefaultDraw2d example_world = Some 0)"
    by (simp add: GetDefaultDraw2d_def example_world_def ILyShine_GetDraw2d_def)
  have e: "IDraw2d_GetDeferPrimitives (engines example_world 0) = False"
    "IDraw2d_GetDefaultImageOptions (engines example_world 0) = ImageOptions_ctor example_members"
    "IDraw2d_GetDefaultTextOptions (engines example_world 0) = documented_TextOptions"
    by (simp_all add: example_world_def example_engine_def Engine_ctor_def
        IDraw2d_GetDeferPrimitives_def IDraw2d_GetDefaultImageOptions_def
        IDraw2d_GetDefaultTextOptions_def)
  show ?thesis
    using h ctor_saves_sets_copies [OF h, where members = example_members
        and storage = example_storage and deferCalls = True]
    by (auto simp: e split: prod.splits)
qed

text \<open>
  Claim C6. If a helper resolved no engine (it was constructed with a null engine and the
  default locator found none), then its construction left the world alone, every forwarding
  draw method (\<^verbatim>\<open>DrawImage\<close>, \<^verbatim>\<open>DrawImageAligned\<close>, \<^verbatim>\<open>DrawQuad\<close>, \<^verbatim>\<open>DrawLine\<close>,
  \<^verbatim>\<open>DrawLineTextured\<close>, \<^verbatim>\<open>DrawRectOutlineTextured\<close>, \<^verbatim>\<open>DrawText\<close>) and the destructor are
  no-ops in every later world and for all arguments, and \<^verbatim>\<open>GetTextSize\<close> returns the zero
  size \<open>(0,0)\<close>.
\<close>

theorem inert_helper:
  assumes "GetDefaultDraw2d w = None"
  shows "(case Draw2dHelper_ctor members storage None deferCalls w of (this, w') \<Rightarrow>
      w' = w \<and> m_draw2d this = None
      \<and> (\<forall>v. DrawImage image' pos size' opacity rot pivotPoint minMaxTexCoords this v = (this, v)
            \<and> DrawImageAligned image' pos size' hAlign vAlign opacity rot minMaxTexCoords this v
                = (this, v)
            \<and> DrawQuad image' verts rounding clamp renderState this v = (this, v)
            \<and> DrawLine start end' col rounding renderState this v = (this, v)
            \<and> DrawLineTextured image' verts rounding renderState this v = (this, v)
            \<and> DrawRectOutlineTextured image' points rightVec downVec col lineThickness this v
                = (this, v)
            \<and> DrawText textString pos pointSize opacity this v = (this, v)
            \<and> Draw2dHelper_dtor this v = v
            \<and> GetTextSize textString pointSize this v = (mk_Vector2 (Fin 0) (Fin 0), this, v)))
    \<and> Draw2dHelper_ctor_default members storage deferCalls w
        = Draw2dHelper_ctor members storage None deferCalls w"
  using assms
  by (simp add: Draw2dHelper_ctor_def Draw2dHelper_ctor_default_def InitCommon_None draw_defs
      f32_of_int_0)

theorem inert_helper_witness:
  "GetDefaultDraw2d example_world_no_engine = None
   \<and> (case Draw2dHelper_ctor example_members example_storage None True example_world_no_engine of
        (this, w') \<Rightarrow>
          w' = example_world_no_engine \<and> m_draw2d this = None
          \<and> DrawText ''abc'' CreateZero (f32_of_int 12) (f32_of_int 1) this example_world
              = (this, example_world)
          \<and> Draw2dHelper_dtor this example_world = example_world
          \<and> GetTextSize ''abc'' (f32_of_int 12) this example_world
              = (mk_Vector2 (Fin 0) (Fin 0), this, example_world))"
proof -
  have h: "GetDefaultDraw2d example_world_no_engine = None"
    by (simp add: GetDefaultDraw2d_def example_world_no_engine_def)
  show ?thesis
    using h inert_helper [OF h, where members = example_members and storage = example_storage
        and deferCalls = True and textString = "''abc''" and pointSize = "f32_of_int 12"
        and pos = CreateZero and opacity = "f32_of_int 1"]
    by (auto split: prod.splits)
qed

text \<open>
  Claim C9. Every setter of the helper changes nothing but the helper's own option record:
  the five image setters leave the world (every engine, with its default records and its
  defer mode) and every member but \<^verbatim>\<open>m_imageOptions\<close> as they were, the seven text setters the
  world and every member but \<^verbatim>\<open>m_textOptions\<close>.
\<close>

theorem setters_touch_options_only:
  "list_all (\<lambda>S. snd (S this w) = w
                \<and> (fst (S this w))\<lparr>m_imageOptions := m_imageOptions this\<rparr> = this)
     [SetImageBlendMode blendState, SetImageColor col, SetImagePixelRounding round',
      SetImageDepthState depthState, SetImageClamp clamp]
   \<and> list_all (\<lambda>S. snd (S this w) = w
                \<and> (fst (S this w))\<lparr>m_textOptions := m_textOptions this\<rparr> = this)
     [SetTextFont name, SetTextEffectIndex idx, SetTextColor col', SetTextAlignment hAlign vAlign,
      SetTextDropShadow offs shadow, SetTextRotation rot, SetTextDepthTestEnabled enabled]"
  by (simp add: SetImageBlendMode_def SetImageColor_def SetImagePixelRounding_def
      SetImageDepthState_def SetImageClamp_def SetTextFont_def SetTextEffectIndex_def
      SetTextColor_def SetTextAlignment_def SetTextDropShadow_def SetTextRotation_def
      SetTextDepthTestEnabled_def Let_def)

end
